(* ===== verification/S3xc_Prelude.thy ===== *)
theory S3xc_Prelude
  imports Main "HOL-Library.Word" "HOL-Library.Char_ord" "HOL-Library.List_Lexorder"
begin

text \<open>
  The vocabulary shared by every component of the model.

  A Rust function that returns a \<open>Result\<close> and acts on the outside world is a function
  \<open>'w \<Rightarrow> (fail + 'a) \<times> 'w\<close>: it returns the result and the world after the call.  The three
  ways not to return a value are constructors of \<open>fail\<close>: an \<open>Err\<close> (with the text of the
  error), a panic (\<open>unwrap\<close> on an error, division by zero), and a call that never returns.
  The combinators below are the \<open>?\<close> operator, \<open>let _ = \<dots>\<close>, \<open>if let Ok(\<dots>)\<close>, \<open>map_err\<close> and
  the \<open>for\<close> loop.  Machine integers are words; the build profile of the shipped binary is
  \<open>release\<close>, so \<open>+\<close>, \<open>-\<close> and \<open>*\<close> wrap around.
\<close>

section \<open>Machine integers and bytes\<close>

type_synonym u64 = "64 word"
type_synonym u32 = "32 word"
type_synonym bytes = string

text \<open>\<open>u64::saturating_sub\<close>, and the ranges \<open>a..b\<close> and \<open>a..=b\<close> over \<open>u64\<close>.\<close>

definition saturating_sub :: "u64 \<Rightarrow> u64 \<Rightarrow> u64" where
  "saturating_sub a b = (if a < b then 0 else a - b)"

definition u64_range :: "u64 \<Rightarrow> u64 \<Rightarrow> u64 list" where
  "u64_range a b = map of_nat [unat a..<unat b]"

definition u64_range_incl :: "u64 \<Rightarrow> u64 \<Rightarrow> u64 list" where
  "u64_range_incl a b = map of_nat [unat a..<Suc (unat b)]"

section \<open>Results and effects\<close>

datatype fail = Error string | Panic string | Diverges

type_synonym ('w, 'a) io = "'w \<Rightarrow> (fail + 'a) \<times> 'w"

definition io_return :: "'a \<Rightarrow> ('w, 'a) io" where
  "io_return x = (\<lambda>w. (Inr x, w))"

definition io_fail :: "fail \<Rightarrow> ('w, 'a) io" where
  "io_fail e = (\<lambda>w. (Inl e, w))"

text \<open>\<open>let x = m?; f(x)\<close>\<close>

definition io_bind :: "('w, 'a) io \<Rightarrow> ('a \<Rightarrow> ('w, 'b) io) \<Rightarrow> ('w, 'b) io" where
  "io_bind m f = (\<lambda>w. case m w of (Inl e, w') \<Rightarrow> (Inl e, w') | (Inr x, w') \<Rightarrow> f x w')"

text \<open>\<open>m?; n\<close>\<close>

definition io_seq :: "('w, 'a) io \<Rightarrow> ('w, 'b) io \<Rightarrow> ('w, 'b) io" where
  "io_seq m n = io_bind m (\<lambda>_. n)"

text \<open>
  A \<open>match\<close> on the result of \<open>m\<close>: the error becomes a value.  Panics and calls that do not
  return are not values: they pass through every handler.
\<close>

definition io_try :: "('w, 'a) io \<Rightarrow> ('w, string + 'a) io" where
  "io_try m = (\<lambda>w. case m w of
      (Inl (Error s), w') \<Rightarrow> (Inr (Inl s), w')
    | (Inl e, w') \<Rightarrow> (Inl e, w')
    | (Inr x, w') \<Rightarrow> (Inr (Inr x), w'))"

text \<open>\<open>let _ = m;\<close>\<close>

definition io_ignore :: "('w, 'a) io \<Rightarrow> ('w, unit) io" where
  "io_ignore m = io_bind (io_try m) (\<lambda>_. io_return ())"

definition io_map_err :: "(string \<Rightarrow> string) \<Rightarrow> ('w, 'a) io \<Rightarrow> ('w, 'a) io" where
  "io_map_err f m = (\<lambda>w. case m w of
      (Inl (Error s), w') \<Rightarrow> (Inl (Error (f s)), w')
    | r \<Rightarrow> r)"

text \<open>A pure \<open>Result\<close> used with \<open>?\<close>, and one used with \<open>unwrap()\<close>.\<close>

definition io_lift :: "string + 'a \<Rightarrow> ('w, 'a) io" where
  "io_lift r = (case r of Inl s \<Rightarrow> io_fail (Error s) | Inr x \<Rightarrow> io_return x)"

definition io_unwrap :: "string + 'a \<Rightarrow> ('w, 'a) io" where
  "io_unwrap r = (case r of Inl s \<Rightarrow> io_fail (Panic s) | Inr x \<Rightarrow> io_return x)"

definition io_read :: "('w \<Rightarrow> 'a) \<Rightarrow> ('w, 'a) io" where
  "io_read f = (\<lambda>w. (Inr (f w), w))"

definition io_modify :: "('w \<Rightarrow> 'w) \<Rightarrow> ('w, unit) io" where
  "io_modify f = (\<lambda>w. (Inr (), f w))"

text \<open>\<open>for x in xs { f(x)?; }\<close>\<close>

fun io_for :: "('a \<Rightarrow> ('w, unit) io) \<Rightarrow> 'a list \<Rightarrow> ('w, unit) io" where
  "io_for f [] = io_return ()"
| "io_for f (x # xs) = io_seq (f x) (io_for f xs)"

section \<open>Rules for the combinators\<close>

named_theorems io_eval \<open>unfolding of the combinators on a world\<close>

lemma io_return_apply [simp, io_eval]: "io_return x w = (Inr x, w)"
  by (simp add: io_return_def)

lemma io_fail_apply [simp, io_eval]: "io_fail e w = (Inl e, w)"
  by (simp add: io_fail_def)

lemma io_bind_apply [io_eval]:
  "io_bind m f w = (case m w of (Inl e, w') \<Rightarrow> (Inl e, w') | (Inr x, w') \<Rightarrow> f x w')"
  by (simp add: io_bind_def)

lemma io_read_apply [simp, io_eval]: "io_read f w = (Inr (f w), w)"
  by (simp add: io_read_def)

lemma io_modify_apply [simp, io_eval]: "io_modify f w = (Inr (), f w)"
  by (simp add: io_modify_def)

lemma io_seq_apply [io_eval]:
  "io_seq m n w = (case m w of (Inl e, w') \<Rightarrow> (Inl e, w') | (Inr x, w') \<Rightarrow> n w')"
  by (simp add: io_seq_def io_bind_apply)

lemma io_try_apply [io_eval]:
  "io_try m w = (case m w of
      (Inl (Error s), w') \<Rightarrow> (Inr (Inl s), w')
    | (Inl e, w') \<Rightarrow> (Inl e, w')
    | (Inr x, w') \<Rightarrow> (Inr (Inr x), w'))"
  by (simp add: io_try_def)

lemma io_map_err_apply [io_eval]:
  "io_map_err f m w = (case m w of (Inl (Error s), w') \<Rightarrow> (Inl (Error (f s)), w') | r \<Rightarrow> r)"
  by (simp add: io_map_err_def)

lemma io_lift_Inr [simp, io_eval]: "io_lift (Inr x) = io_return x"
  and io_lift_Inl [simp, io_eval]: "io_lift (Inl s) = io_fail (Error s)"
  by (simp_all add: io_lift_def)

lemma io_unwrap_Inr [simp, io_eval]: "io_unwrap (Inr x) = io_return x"
  and io_unwrap_Inl [simp, io_eval]: "io_unwrap (Inl s) = io_fail (Panic s)"
  by (simp_all add: io_unwrap_def)

text \<open>A step whose result is known rewrites the rest of the sequence.\<close>

lemma io_bind_Inr: "m w = (Inr x, w') \<Longrightarrow> io_bind m f w = f x w'"
  and io_bind_Inl: "m w = (Inl e, w') \<Longrightarrow> io_bind m f w = (Inl e, w')"
  by (simp_all add: io_bind_apply)

lemma io_seq_Inr: "m w = (Inr x, w') \<Longrightarrow> io_seq m n w = n w'"
  and io_seq_Inl: "m w = (Inl e, w') \<Longrightarrow> io_seq m n w = (Inl e, w')"
  by (simp_all add: io_seq_apply)

lemma io_try_Inr: "m w = (Inr x, w') \<Longrightarrow> io_try m w = (Inr (Inr x), w')"
  and io_try_Error: "m w = (Inl (Error s), w') \<Longrightarrow> io_try m w = (Inr (Inl s), w')"
  by (simp_all add: io_try_apply)

lemma io_bind_assoc: "io_bind (io_bind m f) g = io_bind m (\<lambda>x. io_bind (f x) g)"
  by (rule ext) (auto simp: io_bind_apply split: prod.splits sum.splits)

text \<open>The cases of a sequence that returned a value, and of one that returned at all.\<close>

lemma io_bind_okE:
  assumes "io_bind m f w = (Inr y, w'')"
  obtains x w' where "m w = (Inr x, w')" and "f x w' = (Inr y, w'')"
  using assms by (auto simp: io_bind_apply split: prod.splits sum.splits)

lemma io_seq_okE:
  assumes "io_seq m n w = (Inr y, w'')"
  obtains x w' where "m w = (Inr x, w')" and "n w' = (Inr y, w'')"
  using assms by (auto simp: io_seq_apply split: prod.splits sum.splits)

text \<open>The final world of a computation: an invariant is kept by a sequence when each part keeps it.\<close>

definition keeps :: "('w \<Rightarrow> bool) \<Rightarrow> ('w, 'a) io \<Rightarrow> bool" where
  "keeps P m \<longleftrightarrow> (\<forall>w. P w \<longrightarrow> P (snd (m w)))"

named_theorems keeps_intros \<open>rules that reduce preservation to the parts of a computation\<close>

lemma keepsI [intro?]: "(\<And>w r w'. P w \<Longrightarrow> m w = (r, w') \<Longrightarrow> P w') \<Longrightarrow> keeps P m"
  by (metis keeps_def prod.collapse)

lemma keepsD: "keeps P m \<Longrightarrow> P w \<Longrightarrow> m w = (r, w') \<Longrightarrow> P w'"
  by (metis keeps_def snd_conv)

lemma keeps_return [simp, keeps_intros]: "keeps P (io_return x)"
  and keeps_fail [simp, keeps_intros]: "keeps P (io_fail e)"
  and keeps_read [simp, keeps_intros]: "keeps P (io_read f)"
  by (simp_all add: keeps_def)

lemma keeps_lift [simp, keeps_intros]: "keeps P (io_lift r)"
  by (cases r) simp_all

lemma keeps_unwrap [simp, keeps_intros]: "keeps P (io_unwrap r)"
  by (cases r) simp_all

lemma keeps_bind [keeps_intros]:
  "keeps P m \<Longrightarrow> (\<And>x. keeps P (f x)) \<Longrightarrow> keeps P (io_bind m f)"
  by (rule keepsI) (auto simp: io_bind_apply dest: keepsD split: prod.splits sum.splits)

lemma keeps_seq [keeps_intros]: "keeps P m \<Longrightarrow> keeps P n \<Longrightarrow> keeps P (io_seq m n)"
  by (simp add: io_seq_def keeps_bind)

lemma keeps_try [keeps_intros]: "keeps P m \<Longrightarrow> keeps P (io_try m)"
  by (rule keepsI) (auto simp: io_try_apply dest: keepsD split: prod.splits sum.splits fail.splits)

lemma keeps_ignore [keeps_intros]: "keeps P m \<Longrightarrow> keeps P (io_ignore m)"
  by (simp add: io_ignore_def keeps_bind keeps_try)

lemma keeps_map_err [keeps_intros]: "keeps P m \<Longrightarrow> keeps P (io_map_err f m)"
  by (rule keepsI) (auto simp: io_map_err_apply dest: keepsD split: prod.splits sum.splits fail.splits)

lemma keeps_for [keeps_intros]:
  "(\<And>x. x \<in> set xs \<Longrightarrow> keeps P (f x)) \<Longrightarrow> keeps P (io_for f xs)"
  by (induction xs) (auto intro: keeps_intros)

lemma keeps_if [keeps_intros]: "(c \<Longrightarrow> keeps P m) \<Longrightarrow> (\<not> c \<Longrightarrow> keeps P n) \<Longrightarrow> keeps P (if c then m else n)"
  by simp

lemma keeps_option [keeps_intros]:
  "(x = None \<Longrightarrow> keeps P m) \<Longrightarrow> (\<And>y. x = Some y \<Longrightarrow> keeps P (f y)) \<Longrightarrow>
   keeps P (case x of None \<Rightarrow> m | Some y \<Rightarrow> f y)"
  by (cases x) auto

lemma keeps_sum [keeps_intros]:
  "(\<And>y. x = Inl y \<Longrightarrow> keeps P (g y)) \<Longrightarrow> (\<And>y. x = Inr y \<Longrightarrow> keeps P (f y)) \<Longrightarrow>
   keeps P (case x of Inl y \<Rightarrow> g y | Inr y \<Rightarrow> f y)"
  by (cases x) auto

lemma keeps_prod [keeps_intros]: "(\<And>a b. x = (a, b) \<Longrightarrow> keeps P (f a b)) \<Longrightarrow> keeps P (case x of (a, b) \<Rightarrow> f a b)"
  by (cases x) auto

text \<open>A computation that fails with an \<open>Err\<close> if it fails: it neither panics nor runs on for ever.\<close>

definition errors_only :: "('w, 'a) io \<Rightarrow> bool" where
  "errors_only m \<longleftrightarrow> (\<forall>w f. fst (m w) = Inl f \<longrightarrow> (\<exists>s. f = Error s))"

named_theorems errors_intros \<open>rules that reduce the kind of a failure to the parts of a computation\<close>

lemma errors_onlyI [intro?]: "(\<And>w f w'. m w = (Inl f, w') \<Longrightarrow> \<exists>s. f = Error s) \<Longrightarrow> errors_only m"
  by (metis errors_only_def prod.collapse)

lemma errors_onlyD: "errors_only m \<Longrightarrow> m w = (Inl f, w') \<Longrightarrow> \<exists>s. f = Error s"
  by (metis errors_only_def fst_conv)

lemma errors_return [simp, errors_intros]: "errors_only (io_return x)"
  and errors_fail [simp, errors_intros]: "errors_only (io_fail (Error s))"
  and errors_read [simp, errors_intros]: "errors_only (io_read f)"
  and errors_modify [simp, errors_intros]: "errors_only (io_modify g)"
  by (simp_all add: errors_only_def)

lemma errors_lift [simp, errors_intros]: "errors_only (io_lift r)"
  by (cases r) simp_all

lemma errors_bind [errors_intros]:
  "errors_only m \<Longrightarrow> (\<And>x. errors_only (f x)) \<Longrightarrow> errors_only (io_bind m f)"
  by (rule errors_onlyI) (auto simp: io_bind_apply dest: errors_onlyD split: prod.splits sum.splits)

lemma errors_seq [errors_intros]: "errors_only m \<Longrightarrow> errors_only n \<Longrightarrow> errors_only (io_seq m n)"
  by (simp add: io_seq_def errors_bind)

text \<open>What is tried returns a value.\<close>

lemma errors_try [errors_intros]: "errors_only m \<Longrightarrow> errors_only (io_try m)"
  by (rule errors_onlyI) (auto simp: io_try_apply dest: errors_onlyD split: prod.splits sum.splits fail.splits)

lemma try_returns: "errors_only m \<Longrightarrow> \<exists>x. fst (io_try m w) = Inr x"
  by (cases "m w") (auto simp: io_try_apply dest: errors_onlyD split: sum.splits fail.splits)

lemma ignore_returns: "errors_only m \<Longrightarrow> fst (io_ignore m w) = Inr ()"
  by (cases "m w") (auto simp: io_ignore_def io_bind_apply io_try_apply dest: errors_onlyD split: sum.splits fail.splits)

lemma ignore_apply: "errors_only m \<Longrightarrow> m w = (r, w') \<Longrightarrow> io_ignore m w = (Inr (), w')"
  by (cases r) (auto simp: io_ignore_def io_bind_apply io_try_apply dest: errors_onlyD)

lemma errors_ignore [errors_intros]: "errors_only m \<Longrightarrow> errors_only (io_ignore m)"
  by (simp add: io_ignore_def errors_bind errors_try)

lemma errors_map_err [errors_intros]: "errors_only m \<Longrightarrow> errors_only (io_map_err f m)"
  by (rule errors_onlyI) (auto simp: io_map_err_apply dest: errors_onlyD split: prod.splits sum.splits fail.splits)

lemma errors_for [errors_intros]:
  "(\<And>x. x \<in> set xs \<Longrightarrow> errors_only (f x)) \<Longrightarrow> errors_only (io_for f xs)"
  by (induction xs) (auto intro: errors_intros)

lemma errors_if [errors_intros]:
  "(c \<Longrightarrow> errors_only m) \<Longrightarrow> (\<not> c \<Longrightarrow> errors_only n) \<Longrightarrow> errors_only (if c then m else n)"
  by simp

lemma errors_option [errors_intros]:
  "(x = None \<Longrightarrow> errors_only m) \<Longrightarrow> (\<And>y. x = Some y \<Longrightarrow> errors_only (f y)) \<Longrightarrow>
   errors_only (case x of None \<Rightarrow> m | Some y \<Rightarrow> f y)"
  by (cases x) auto

lemma errors_sum [errors_intros]:
  "(\<And>y. x = Inl y \<Longrightarrow> errors_only (g y)) \<Longrightarrow> (\<And>y. x = Inr y \<Longrightarrow> errors_only (f y)) \<Longrightarrow>
   errors_only (case x of Inl y \<Rightarrow> g y | Inr y \<Rightarrow> f y)"
  by (cases x) auto

lemma errors_prod [errors_intros]:
  "(\<And>a b. x = (a, b) \<Longrightarrow> errors_only (f a b)) \<Longrightarrow> errors_only (case x of (a, b) \<Rightarrow> f a b)"
  by (cases x) auto

text \<open>A computation that comes to an end, if only with a panic.\<close>

definition halts :: "('w, 'a) io \<Rightarrow> bool" where
  "halts m \<longleftrightarrow> (\<forall>w. fst (m w) \<noteq> Inl Diverges)"

named_theorems halts_intros \<open>rules that reduce termination to the parts of a computation\<close>

lemma haltsD: "halts m \<Longrightarrow> m w \<noteq> (Inl Diverges, w')"
  by (metis fst_conv halts_def)

lemma errors_halts [halts_intros]: "errors_only m \<Longrightarrow> halts m"
  by (auto simp: halts_def errors_only_def)

lemma halts_unwrap [halts_intros]: "halts (io_unwrap r)"
  by (cases r) (simp_all add: halts_def)

lemma halts_return [halts_intros]: "halts (io_return x)"
  by (simp add: halts_def)

lemma halts_bind [halts_intros]: "halts m \<Longrightarrow> (\<And>x. halts (f x)) \<Longrightarrow> halts (io_bind m f)"
  unfolding halts_def
  by (auto simp: io_bind_apply split: prod.splits sum.splits) (metis fst_conv)

lemma halts_if [halts_intros]: "halts m \<Longrightarrow> halts n \<Longrightarrow> halts (if c then m else n)"
  by simp

lemma halts_option [halts_intros]: "halts m \<Longrightarrow> (\<And>y. halts (f y)) \<Longrightarrow> halts (case x of None \<Rightarrow> m | Some y \<Rightarrow> f y)"
  by (cases x) simp_all

section \<open>Generic lemmas on words, ranges and lists\<close>

lemma saturating_sub_le: "saturating_sub a b \<le> a"
  by (simp add: saturating_sub_def word_sub_le_iff not_less)

lemma unat_saturating_sub: "unat (saturating_sub a b) = unat a - unat b"
  by (auto simp: saturating_sub_def word_less_nat_alt unat_sub_if')

lemma unat_u64_less: "unat (b :: u64) < 2 ^ 64"
  using unsigned_less [of b, where ?'a = nat] by simp

lemma unat_of_nat_u64: "n < 2 ^ 64 \<Longrightarrow> unat (of_nat n :: u64) = n"
  by (simp add: unat_of_nat take_bit_nat_eq_self)

lemma set_u64_range: "set (u64_range a b) = {i. a \<le> i \<and> i < b}"
proof -
  have "i \<in> of_nat ` {unat a..<unat b}" if "a \<le> i" "i < b" for i
    using that by (intro image_eqI [of _ _ "unat i"]) (auto simp: word_le_nat_alt word_less_nat_alt)
  moreover have "a \<le> of_nat n \<and> of_nat n < b" if "n \<in> {unat a..<unat b}" for n
    using that unat_u64_less [of b]
    by (auto simp: word_le_nat_alt word_less_nat_alt unat_of_nat_u64)
  ultimately show ?thesis by (auto simp: u64_range_def)
qed

lemma distinct_of_nat_upt: "n \<le> 2 ^ 64 \<Longrightarrow> distinct (map (of_nat :: nat \<Rightarrow> u64) [m..<n])"
proof -
  assume "n \<le> 2 ^ 64"
  then have "inj_on (of_nat :: nat \<Rightarrow> u64) {m..<n}"
    by (intro inj_on_inverseI [where g = unat]) (simp add: unat_of_nat_u64)
  then show ?thesis by (simp add: distinct_map)
qed

lemma distinct_u64_range: "distinct (u64_range a b)"
  using unat_u64_less [of b] by (simp add: u64_range_def distinct_of_nat_upt)

lemma drop_take_append:
  assumes "a \<le> b" and "b \<le> c"
  shows "drop a (take b xs) @ drop b (take c xs) = drop a (take c xs)"
proof -
  have "drop (b - a) (take (c - a) (drop a xs)) = drop b (take c xs)"
    using assms by (simp add: drop_take)
  moreover have "take (b - a) (take (c - a) (drop a xs)) = drop a (take b xs)"
    using assms by (simp add: drop_take min_def)
  ultimately show ?thesis
    by (metis append_take_drop_id drop_take)
qed

lemma concat_map_take_drop:
  assumes "mono f"
  shows "concat (map (\<lambda>i. drop (f i) (take (f (Suc i)) xs)) [m..<m + n]) = drop (f m) (take (f (m + n)) xs)"
proof (induction n)
  case 0
  then show ?case by simp
next
  case (Suc n)
  have "f m \<le> f (m + n)" and "f (m + n) \<le> f (Suc (m + n))"
    using assms by (auto simp: mono_def)
  then have "drop (f m) (take (f (m + n)) xs) @ drop (f (m + n)) (take (f (Suc (m + n))) xs)
      = drop (f m) (take (f (Suc (m + n))) xs)"
    by (rule drop_take_append)
  with Suc show ?case by simp
qed

end
