(* ===== verification/Rust_Str.thy ===== *)
theory Rust_Str
  imports S3xc_Prelude
begin

text \<open>
  The operations of Rust's \<open>str\<close>, \<open>String\<close> and \<open>u64\<close> that the program calls.

  A Rust string is its UTF-8 encoding: a list of bytes, one \<open>char\<close> of HOL each.  All the
  separators and prefixes the program searches for are ASCII, so searching bytes and searching
  code points agree.  \<open>trim\<close> removes every character with the Unicode property White\_Space,
  listed here by its encoding.  \<open>to_lowercase\<close> is the ASCII part of the Unicode mapping.
\<close>

section \<open>Searching and splitting\<close>

definition starts_with :: "string \<Rightarrow> string \<Rightarrow> bool" where
  "starts_with s p \<longleftrightarrow> take (length p) s = p"

text \<open>\<open>s.find(c)\<close>, \<open>s.rfind(c)\<close>: the position of the first, of the last occurrence.\<close>

fun find_char :: "char \<Rightarrow> string \<Rightarrow> nat option" where
  "find_char c [] = None"
| "find_char c (x # xs) = (if x = c then Some 0 else map_option Suc (find_char c xs))"

definition rfind_char :: "char \<Rightarrow> string \<Rightarrow> nat option" where
  "rfind_char c s = map_option (\<lambda>k. length s - 1 - k) (find_char c (rev s))"

text \<open>\<open>s.contains(p)\<close> for a string \<open>p\<close>.\<close>

fun contains_str :: "string \<Rightarrow> string \<Rightarrow> bool" where
  "contains_str [] p \<longleftrightarrow> p = []"
| "contains_str (x # xs) p \<longleftrightarrow> starts_with (x # xs) p \<or> contains_str xs p"

text \<open>\<open>s.split(c)\<close> and \<open>s.splitn(2, c)\<close>: the empty string has one (empty) part.\<close>

fun split_char :: "char \<Rightarrow> string \<Rightarrow> string list" where
  "split_char c [] = [[]]"
| "split_char c (x # xs) =
     (if x = c then [] # split_char c xs
      else (case split_char c xs of [] \<Rightarrow> [[x]] | p # ps \<Rightarrow> (x # p) # ps))"

definition splitn2 :: "char \<Rightarrow> string \<Rightarrow> string list" where
  "splitn2 c s = (case find_char c s of None \<Rightarrow> [s] | Some i \<Rightarrow> [take i s, drop (Suc i) s])"

text \<open>\<open>parts.join(sep)\<close>\<close>

fun join :: "string \<Rightarrow> string list \<Rightarrow> string" where
  "join sep [] = []"
| "join sep [p] = p"
| "join sep (p # q # ps) = p @ sep @ join sep (q # ps)"

text \<open>\<open>s.trim_start_matches(c)\<close>\<close>

definition trim_start_matches :: "char \<Rightarrow> string \<Rightarrow> string" where
  "trim_start_matches c s = dropWhile (\<lambda>x. x = c) s"

section \<open>White space and case\<close>

definition white_space :: "string list" where
  "white_space =
    [[CHR 0x09], [CHR 0x0A], [CHR 0x0B], [CHR 0x0C], [CHR 0x0D], [CHR 0x20],
     [CHR 0xC2, CHR 0x85], [CHR 0xC2, CHR 0xA0], [CHR 0xE1, CHR 0x9A, CHR 0x80],
     [CHR 0xE2, CHR 0x80, CHR 0x80], [CHR 0xE2, CHR 0x80, CHR 0x81],
     [CHR 0xE2, CHR 0x80, CHR 0x82], [CHR 0xE2, CHR 0x80, CHR 0x83],
     [CHR 0xE2, CHR 0x80, CHR 0x84], [CHR 0xE2, CHR 0x80, CHR 0x85],
     [CHR 0xE2, CHR 0x80, CHR 0x86], [CHR 0xE2, CHR 0x80, CHR 0x87],
     [CHR 0xE2, CHR 0x80, CHR 0x88], [CHR 0xE2, CHR 0x80, CHR 0x89],
     [CHR 0xE2, CHR 0x80, CHR 0x8A], [CHR 0xE2, CHR 0x80, CHR 0xA8],
     [CHR 0xE2, CHR 0x80, CHR 0xA9], [CHR 0xE2, CHR 0x80, CHR 0xAF],
     [CHR 0xE2, CHR 0x81, CHR 0x9F], [CHR 0xE3, CHR 0x80, CHR 0x80]]"

lemma white_space_nonempty: "w \<in> set white_space \<Longrightarrow> w \<noteq> []"
  by (auto simp: white_space_def)

lemma strip_shorter:
  assumes "find (\<lambda>w. w \<noteq> [] \<and> starts_with s w) ws = Some w"
  shows "length (drop (length w) s) < length s"
proof -
  from assms have "w \<noteq> []" and "take (length w) s = w"
    by (auto simp: find_Some_iff starts_with_def)
  then have "s \<noteq> []" by force
  with \<open>w \<noteq> []\<close> show ?thesis by simp
qed

text \<open>Remove from the front of \<open>s\<close> as long as it starts with a member of \<open>ws\<close>.\<close>

function strip_any :: "string list \<Rightarrow> string \<Rightarrow> string" where
  "strip_any ws s =
     (case find (\<lambda>w. w \<noteq> [] \<and> starts_with s w) ws of
        None \<Rightarrow> s
      | Some w \<Rightarrow> strip_any ws (drop (length w) s))"
  by pat_completeness auto
termination
  by (relation "measure (\<lambda>(ws, s). length s)")
    (auto dest: strip_shorter)

declare strip_any.simps [simp del]

definition trim_start :: "string \<Rightarrow> string" where
  "trim_start s = strip_any white_space s"

definition trim_end :: "string \<Rightarrow> string" where
  "trim_end s = rev (strip_any (map rev white_space) (rev s))"

definition trim :: "string \<Rightarrow> string" where
  "trim s = trim_end (trim_start s)"

definition lower_char :: "char \<Rightarrow> char" where
  "lower_char c = (if CHR ''A'' \<le> c \<and> c \<le> CHR ''Z'' then char_of (of_char c + 32 :: nat) else c)"

definition to_lowercase :: "string \<Rightarrow> string" where
  "to_lowercase s = map lower_char s"

section \<open>Decimal numbers\<close>

text \<open>\<open>format!("{}", n)\<close> for an unsigned integer, and \<open>s.parse::<u64>().ok()\<close>.\<close>

definition digit_char :: "nat \<Rightarrow> char" where
  "digit_char d = char_of (48 + d)"

fun show_nat :: "nat \<Rightarrow> string" where
  "show_nat n = (if n < 10 then [digit_char n] else show_nat (n div 10) @ [digit_char (n mod 10)])"

declare show_nat.simps [simp del]

definition show_u64 :: "u64 \<Rightarrow> string" where
  "show_u64 n = show_nat (unat n)"

definition digit_value :: "char \<Rightarrow> nat option" where
  "digit_value c = (let k = of_char c :: nat in if 48 \<le> k \<and> k \<le> 57 then Some (k - 48) else None)"

text \<open>Each step checks the digit and that \<open>acc * 10 + d\<close> fits in 64 bits.\<close>

fun parse_digits :: "nat \<Rightarrow> string \<Rightarrow> nat option" where
  "parse_digits acc [] = Some acc"
| "parse_digits acc (c # cs) =
     (case digit_value c of
        None \<Rightarrow> None
      | Some d \<Rightarrow> if acc * 10 + d < 2 ^ 64 then parse_digits (acc * 10 + d) cs else None)"

text \<open>One leading \<open>+\<close> is accepted; the empty string and a lone \<open>+\<close> are not.\<close>

definition parse_u64 :: "string \<Rightarrow> u64 option" where
  "parse_u64 s =
     (let t = (case s of c # d # cs \<Rightarrow> if c = CHR ''+'' then d # cs else s | _ \<Rightarrow> s)
      in if t = [] then None else map_option of_nat (parse_digits 0 t))"

section \<open>Lemmas: searching and splitting\<close>

lemma starts_with_iff: "starts_with s p \<longleftrightarrow> (\<exists>r. s = p @ r)"
  by (metis append_eq_conv_conj append_take_drop_id starts_with_def)

lemma starts_with_append [simp]: "starts_with (p @ r) p"
  by (simp add: starts_with_def)

lemma find_char_None [simp]: "find_char c s = None \<longleftrightarrow> c \<notin> set s"
  by (induction s) auto

lemma find_char_append: "c \<notin> set p \<Longrightarrow> find_char c (p @ c # r) = Some (length p)"
  by (induction p) auto

lemma find_char_Some:
  "find_char c s = Some i \<Longrightarrow> i < length s \<and> s ! i = c \<and> c \<notin> set (take i s) \<and> s = take i s @ c # drop (Suc i) s"
proof (induction s arbitrary: i)
  case Nil
  then show ?case by simp
next
  case (Cons x xs)
  then show ?case by (cases i) (auto split: if_splits)
qed

lemma rfind_char_append: "c \<notin> set r \<Longrightarrow> rfind_char c (p @ c # r) = Some (length p)"
  using find_char_append [of c "rev r" "rev p"] by (simp add: rfind_char_def)

lemma rfind_char_None [simp]: "rfind_char c s = None \<longleftrightarrow> c \<notin> set s"
  by (simp add: rfind_char_def)

lemma split_char_nonempty [simp]: "split_char c s \<noteq> []"
  by (cases s) (auto split: list.splits)

lemma split_char_no_sep: "c \<notin> set s \<Longrightarrow> split_char c s = [s]"
  by (induction s) auto

lemma split_char_append: "c \<notin> set p \<Longrightarrow> split_char c (p @ c # r) = p # split_char c r"
  by (induction p) auto

lemma split_char_parts: "p \<in> set (split_char c s) \<Longrightarrow> c \<notin> set p"
  by (induction s arbitrary: p) (auto split: if_splits list.splits)

lemma join_split: "join [c] (split_char c s) = s"
proof (induction s)
  case Nil
  then show ?case by simp
next
  case (Cons x xs)
  then show ?case
    by (cases "split_char c xs"; cases "tl (split_char c xs)") (auto simp: neq_Nil_conv)
qed

lemma split_join:
  "ps \<noteq> [] \<Longrightarrow> (\<And>p. p \<in> set ps \<Longrightarrow> c \<notin> set p) \<Longrightarrow> split_char c (join [c] ps) = ps"
  by (induction "[c]" ps rule: join.induct) (auto simp: split_char_no_sep split_char_append)

lemma splitn2_append: "c \<notin> set p \<Longrightarrow> splitn2 c (p @ c # r) = [p, r]"
  by (simp add: splitn2_def find_char_append)

lemma splitn2_no_sep: "c \<notin> set s \<Longrightarrow> splitn2 c s = [s]"
  by (simp add: splitn2_def split: option.split)

text \<open>
  The first separator determines both halves: the fact behind the injectivity of every
  composite key of the program.
\<close>

lemma append_sep_eq_iff:
  fixes a b :: string
  assumes "c \<notin> set a" and "c \<notin> set b"
  shows "a @ c # x = b @ c # y \<longleftrightarrow> a = b \<and> x = y"
proof
  assume "a @ c # x = b @ c # y"
  then have "splitn2 c (a @ c # x) = splitn2 c (b @ c # y)" by (rule arg_cong)
  then show "a = b \<and> x = y" unfolding assms [THEN splitn2_append] by simp
qed simp

lemma append_sep_eq_iff_last:
  fixes x y :: string
  assumes "c \<notin> set x" and "c \<notin> set y"
  shows "a @ c # x = b @ c # y \<longleftrightarrow> a = b \<and> x = y"
proof -
  have "rev (a @ c # x) = rev (b @ c # y) \<longleftrightarrow> rev x = rev y \<and> rev a = rev b"
    using append_sep_eq_iff [of c "rev x" "rev y" "rev a" "rev b"] assms by simp
  then show ?thesis by (auto simp only: rev_is_rev_conv)
qed

section \<open>Lemmas: trimming\<close>

lemma strip_any_none: "(\<And>w. w \<in> set ws \<Longrightarrow> w \<noteq> [] \<Longrightarrow> \<not> starts_with s w) \<Longrightarrow> strip_any ws s = s"
  by (subst strip_any.simps) (auto split: option.splits simp: find_Some_iff)

text \<open>A string of visible ASCII characters has no white space to remove.\<close>

definition visible :: "char \<Rightarrow> bool" where
  "visible c \<longleftrightarrow> 32 < (of_char c :: nat) \<and> (of_char c :: nat) < 127"

lemma white_space_not_visible: "w \<in> set white_space \<Longrightarrow> c \<in> set w \<Longrightarrow> \<not> visible c"
  by (auto simp: white_space_def visible_def)

lemma no_white_space_prefix:
  "t \<noteq> [] \<Longrightarrow> visible (hd t) \<Longrightarrow> w \<noteq> [] \<Longrightarrow> (\<And>c. c \<in> set w \<Longrightarrow> \<not> visible c) \<Longrightarrow> \<not> starts_with t w"
  by (cases w; cases t) (auto simp: starts_with_def)

lemma trim_ends:
  assumes "s \<noteq> []" and "visible (hd s)" and "visible (last s)"
  shows "trim s = s"
proof -
  have "trim_start s = s"
    unfolding trim_start_def
    by (rule strip_any_none) (use assms white_space_not_visible no_white_space_prefix in blast)
  moreover have "strip_any (map rev white_space) (rev s) = rev s"
    using assms white_space_not_visible
    by (intro strip_any_none no_white_space_prefix) (auto simp: hd_rev)
  ultimately show ?thesis by (simp add: trim_def trim_end_def)
qed

lemma trim_visible: "list_all visible s \<Longrightarrow> trim s = s"
proof (cases s)
  case Nil
  then show ?thesis by (simp add: trim_def trim_start_def trim_end_def strip_any_none starts_with_def)
next
  case (Cons c cs)
  assume "list_all visible s"
  with Cons show ?thesis by (intro trim_ends) (auto simp: list_all_iff)
qed

lemma trim_space: "trim (CHR '' '' # s) = trim s"
  by (simp add: trim_def trim_start_def) (subst strip_any.simps, simp add: white_space_def starts_with_def)

section \<open>Lemmas: decimal numbers\<close>

lemma digit_value_digit_char [simp]: "d < 10 \<Longrightarrow> digit_value (digit_char d) = Some d"
  by (simp add: digit_value_def digit_char_def Let_def)

lemma parse_digits_append:
  "parse_digits a (s @ t) = Option.bind (parse_digits a s) (\<lambda>b. parse_digits b t)"
  by (induction s arbitrary: a) (auto split: option.splits)

lemma parse_digits_show_nat: "n < 2 ^ 64 \<Longrightarrow> parse_digits 0 (show_nat n) = Some n"
proof (induction n rule: show_nat.induct)
  case (1 n)
  show ?case
  proof (cases "n < 10")
    case True
    then show ?thesis by (simp add: show_nat.simps [of n])
  next
    case False
    with 1 have "parse_digits 0 (show_nat (n div 10)) = Some (n div 10)" by simp
    moreover have "n div 10 * 10 + n mod 10 = n" by simp
    ultimately show ?thesis using False "1.prems"
      by (simp add: show_nat.simps [of n] parse_digits_append)
  qed
qed

lemma show_nat_nonempty [simp]: "show_nat n \<noteq> []"
  by (subst show_nat.simps) simp

lemma show_nat_digits: "c \<in> set (show_nat n) \<Longrightarrow> 48 \<le> (of_char c :: nat) \<and> (of_char c :: nat) \<le> 57"
proof (induction n rule: show_nat.induct)
  case (1 n)
  then show ?case
    by (cases "n < 10") (auto simp: show_nat.simps [of n] digit_char_def)
qed

lemma show_u64_digits: "c \<in> set (show_u64 n) \<Longrightarrow> 48 \<le> (of_char c :: nat) \<and> (of_char c :: nat) \<le> 57"
  by (simp add: show_u64_def show_nat_digits)

lemma show_u64_no_sep:
  "CHR '':'' \<notin> set (show_u64 n)" "CHR ''_'' \<notin> set (show_u64 n)" "CHR ''.'' \<notin> set (show_u64 n)"
  "CHR ''-'' \<notin> set (show_u64 n)" "CHR ''/'' \<notin> set (show_u64 n)" "CHR ''+'' \<notin> set (show_u64 n)"
  by (auto dest!: show_u64_digits)

lemma show_u64_visible: "list_all visible (show_u64 n)"
  by (auto simp: list_all_iff visible_def dest!: show_u64_digits)

text \<open>Printing a \<open>u64\<close> and parsing it back gives the number.\<close>

lemma parse_show_u64: "parse_u64 (show_u64 n) = Some n"
proof -
  have "parse_digits 0 (show_u64 n) = Some (unat n)"
    using unat_u64_less [of n] by (simp add: show_u64_def parse_digits_show_nat)
  moreover have "hd (show_u64 n) \<noteq> CHR ''+''"
    by (metis hd_in_set list.set_sel(1) show_nat_nonempty show_u64_def show_u64_no_sep(6))
  moreover have "show_u64 n \<noteq> []" by (simp add: show_u64_def)
  ultimately show ?thesis
    by (auto simp: parse_u64_def Let_def split: list.splits)
qed

lemma show_u64_inject [simp]: "show_u64 m = show_u64 n \<longleftrightarrow> m = n"
  by (metis option.inject parse_show_u64)

end
