(* ===== verification/World.thy ===== *)
theory World
  imports Rust_Str
begin

text \<open>
  The data the components exchange, the outside world they act on, and the code that is not
  part of the repository.

  \<^item> The metadata records of \<open>src/cache/metadata.rs\<close> and the requests and responses of HTTP.
  \<^item> \<open>world\<close>: the two tables of the metadata database, the files of the cache directory, the
    requests sent upstream so far, and the number of outside calls made so far.
  \<^item> \<open>env\<close>: what the repository only calls, as parameters.  Which outside call fails, what the
    clock shows and what the upstream answers depend on the number of the call, so a theorem
    about all \<open>env\<close> is a theorem about every pattern of failures and every behaviour of the
    upstream.  Libraries (SHA-256, HMAC, JSON, URLs, dates, header values) are functions of
    which nothing is assumed unless a theorem says so.
\<close>

section \<open>Metadata records\<close>

record object_metadata =
  content_length :: u64
  content_type :: "string option"
  etag :: "string option"
  last_modified :: int

datatype chunk_status = Complete | Downloading

record chunk_metadata =
  size_of :: u32
  last_accessed_at :: int
  status :: chunk_status

text \<open>The body of an error answer (\<open>src/utils.rs\<close>), before it is serialised.\<close>

record s3_error_xml =
  xml_code :: string
  xml_message :: string
  xml_resource :: "string option"
  xml_request_id :: string

section \<open>HTTP\<close>

text \<open>
  A header map by its contents: names are lower case, as the \<open>http\<close> crate keeps them; \<open>get\<close>
  gives the first value of a name and \<open>insert\<close> replaces all of them.
\<close>

type_synonym header_map = "(string \<times> string) list"

definition hm_get :: "header_map \<Rightarrow> string \<Rightarrow> string option" where
  "hm_get h n = map_of h n"

definition hm_contains :: "header_map \<Rightarrow> string \<Rightarrow> bool" where
  "hm_contains h n \<longleftrightarrow> map_of h n \<noteq> None"

definition hm_insert :: "string \<Rightarrow> string \<Rightarrow> header_map \<Rightarrow> header_map" where
  "hm_insert n v h = filter (\<lambda>(m, _). m \<noteq> n) h @ [(n, v)]"

record url =
  url_scheme :: string
  url_host :: "string option"
  url_port :: "nat option"
  url_path :: string
  url_query :: "string option"

datatype http_body = NoBody | FullBody bytes | StreamBody "bytes list"

record http_request =
  rq_method :: string
  rq_url :: url
  rq_headers :: header_map
  rq_body :: http_body

text \<open>A response body is a stream of pieces, each of which may be a transport error.\<close>

type_synonym piece_stream = "(string + bytes) list"

record http_response =
  rs_status :: nat
  rs_headers :: header_map
  rs_body :: piece_stream

text \<open>A request of a client: the path and the query are those of its URI, not decoded.\<close>

record client_request =
  in_method :: string
  in_path :: string
  in_query :: "string option"
  in_headers :: header_map
  in_body :: piece_stream

definition is_success :: "nat \<Rightarrow> bool" where
  "is_success st \<longleftrightarrow> 200 \<le> st \<and> st < 300"

section \<open>Code outside the repository\<close>

record env =
  \<comment> \<open>the operating system and the network, by the number of the call\<close>
  io_fault :: "nat \<Rightarrow> string option"
  short_write :: "nat \<Rightarrow> nat"
  clock :: "nat \<Rightarrow> int"
  upstream :: "nat \<Rightarrow> http_request \<Rightarrow> string + http_response"
  rx_closed :: "nat \<Rightarrow> bool"
  env_var :: "string \<Rightarrow> string option"
  \<comment> \<open>\<open>serde_json\<close> on the two metadata records\<close>
  ser_object :: "object_metadata \<Rightarrow> string + bytes"
  de_object :: "bytes \<Rightarrow> string + object_metadata"
  ser_chunk :: "chunk_metadata \<Rightarrow> string + bytes"
  de_chunk :: "bytes \<Rightarrow> string + chunk_metadata"
  \<comment> \<open>\<open>sha2\<close>, \<open>hmac\<close>, \<open>hex\<close>\<close>
  sha256 :: "bytes \<Rightarrow> bytes"
  hmac_mac :: "bytes \<Rightarrow> bytes \<Rightarrow> bytes"
  hex_encode :: "bytes \<Rightarrow> string"
  \<comment> \<open>\<open>url\<close>\<close>
  url_parse :: "string \<Rightarrow> string + url"
  url_set_host :: "url \<Rightarrow> string \<Rightarrow> string + url"
  url_set_path :: "url \<Rightarrow> string \<Rightarrow> url"
  url_set_query :: "url \<Rightarrow> string option \<Rightarrow> url"
  form_parse :: "bytes \<Rightarrow> (string \<times> string) list"
  \<comment> \<open>\<open>http\<close>: header values, methods, the text of a status, the text of a body\<close>
  hv_parse :: "string \<Rightarrow> string + string"
  hv_to_str :: "string \<Rightarrow> string option"
  method_parse :: "string \<Rightarrow> string + string"
  status_text :: "nat \<Rightarrow> string"
  body_text :: "piece_stream \<Rightarrow> string"
  \<comment> \<open>\<open>axum\<close>: of a path that matches \<open>/:bucket/*key\<close> the bucket and the key, decoded, or why they
    cannot be decoded\<close>
  path_params :: "string \<Rightarrow> (string + string \<times> string) option"
  \<comment> \<open>\<open>quick_xml\<close>\<close>
  xml_ser :: "s3_error_xml \<Rightarrow> string + string"
  \<comment> \<open>\<open>chrono\<close>: RFC 2822 dates, \<open>%Y%m%dT%H%M%SZ\<close>, the HTTP date\<close>
  rfc2822 :: "string \<Rightarrow> int option"
  amz_date :: "int \<Rightarrow> string"
  http_date :: "int \<Rightarrow> string"

section \<open>The outside world\<close>

text \<open>
  A table of the \<open>redb\<close> database by its contents, in the order of the keys (the order in which
  it is iterated); a file system by the contents of its files.
\<close>

type_synonym table = "(string \<times> bytes) list"
type_synonym path = "string list"

record world =
  objects :: table
  chunks :: table
  files :: "path \<Rightarrow> bytes option"
  sent :: "http_request list"
  ticks :: nat

type_synonym 'a act = "(world, 'a) io"

text \<open>One outside call that returns nothing: it succeeds or fails as the environment says.\<close>

definition attempt :: "env \<Rightarrow> unit act" where
  "attempt e = (\<lambda>w.
     (case io_fault e (ticks w) of None \<Rightarrow> Inr () | Some msg \<Rightarrow> Inl (Error msg),
      w\<lparr>ticks := Suc (ticks w)\<rparr>))"

text \<open>\<open>RequestBuilder::send\<close>\<close>

definition http_send :: "env \<Rightarrow> http_request \<Rightarrow> http_response act" where
  "http_send e rq = (\<lambda>w.
     (case upstream e (ticks w) rq of Inl msg \<Rightarrow> Inl (Error msg) | Inr rs \<Rightarrow> Inr rs,
      w\<lparr>sent := sent w @ [rq], ticks := Suc (ticks w)\<rparr>))"

text \<open>
  \<open>SystemTime::now()\<close> in seconds since the epoch, a time before the epoch counting as 0, and
  \<open>chrono::Utc::now().timestamp()\<close>.
\<close>

definition now_secs :: "env \<Rightarrow> int act" where
  "now_secs e = io_read (\<lambda>w. max 0 (clock e (ticks w)))"

definition utc_timestamp :: "env \<Rightarrow> int act" where
  "utc_timestamp e = io_read (\<lambda>w. clock e (ticks w))"

section \<open>Lemmas\<close>

lemma hm_get_insert [simp]: "hm_get (hm_insert n v h) m = (if m = n then Some v else hm_get h m)"
proof -
  have "map_of (filter (\<lambda>(m, _). m \<noteq> n) h) m = (if m = n then None else map_of h m)"
    by (induction h) auto
  then show ?thesis by (auto simp: hm_get_def hm_insert_def map_add_def split: option.split)
qed

lemma hm_get_Nil [simp]: "hm_get [] n = None"
  by (simp add: hm_get_def)

lemma hm_contains_iff: "hm_contains h n \<longleftrightarrow> hm_get h n \<noteq> None"
  by (simp add: hm_contains_def hm_get_def)

lemma attempt_cases:
  obtains msg where "attempt e w = (Inl (Error msg), w\<lparr>ticks := Suc (ticks w)\<rparr>)"
    and "io_fault e (ticks w) = Some msg"
  | "attempt e w = (Inr (), w\<lparr>ticks := Suc (ticks w)\<rparr>)" and "io_fault e (ticks w) = None"
  by (cases "io_fault e (ticks w)") (auto simp: attempt_def)

lemma attempt_eq:
  "attempt e w = (case io_fault e (ticks w) of None \<Rightarrow> Inr () | Some msg \<Rightarrow> Inl (Error msg),
     w\<lparr>ticks := Suc (ticks w)\<rparr>)"
  by (simp add: attempt_def)

lemma now_secs_apply [simp, io_eval]: "now_secs e w = (Inr (max 0 (clock e (ticks w))), w)"
  by (simp add: now_secs_def)

lemma utc_timestamp_apply [simp, io_eval]: "utc_timestamp e w = (Inr (clock e (ticks w)), w)"
  by (simp add: utc_timestamp_def)

text \<open>
  A predicate that does not look at the call counter, or at the counter and the log, is kept
  by an outside call.
\<close>

lemma keeps_attempt:
  "(\<And>w n. P w \<Longrightarrow> P (w\<lparr>ticks := n\<rparr>)) \<Longrightarrow> keeps P (attempt e)"
  by (rule keepsI) (auto simp: attempt_def)

lemma keeps_http_send:
  "(\<And>w s n. P w \<Longrightarrow> P (w\<lparr>sent := s, ticks := n\<rparr>)) \<Longrightarrow> keeps P (http_send e rq)"
  by (rule keepsI) (auto simp: http_send_def)

lemma errors_attempt [simp, errors_intros]: "errors_only (attempt e)"
  by (rule errors_onlyI) (auto simp: attempt_def split: option.splits)

lemma errors_http_send [simp, errors_intros]: "errors_only (http_send e rq)"
  by (rule errors_onlyI) (auto simp: http_send_def split: sum.splits)

lemma errors_clock [simp, errors_intros]: "errors_only (now_secs e)" "errors_only (utc_timestamp e)"
  by (simp_all add: now_secs_def utc_timestamp_def)

lemma keeps_now_secs [keeps_intros]: "keeps P (now_secs e)"
  and keeps_utc_timestamp [keeps_intros]: "keeps P (utc_timestamp e)"
  by (simp_all add: now_secs_def utc_timestamp_def)

lemma attempt_frame [simp]:
  "objects (snd (attempt e w)) = objects w" "chunks (snd (attempt e w)) = chunks w"
  "files (snd (attempt e w)) = files w" "sent (snd (attempt e w)) = sent w"
  by (simp_all add: attempt_def)

text \<open>Two worlds with the same database.\<close>

definition same_db :: "world \<Rightarrow> world \<Rightarrow> bool" where
  "same_db w w' \<longleftrightarrow> objects w' = objects w \<and> chunks w' = chunks w"

lemma same_db_refl [simp]: "same_db w w"
  by (simp add: same_db_def)

lemma same_db_trans: "same_db u v \<Longrightarrow> same_db v w \<Longrightarrow> same_db u w"
  by (simp add: same_db_def)

lemma same_db_frame [simp]:
  "same_db u (w\<lparr>ticks := n\<rparr>) = same_db u w" "same_db u (w\<lparr>files := f\<rparr>) = same_db u w"
  "same_db u (w\<lparr>sent := s\<rparr>) = same_db u w"
  by (simp_all add: same_db_def)

end
