(* ===== verification/Store_Interface.thy ===== *)
theory Store_Interface
  imports S3xc_Prelude
begin

text \<open>
  The contract the cache coordinator relies on, for the metadata database and for the chunk
  files alike: a collection of cells, written and deleted one at a time.

  \<open>view\<close> reads the cells of a world, \<open>good\<close> is the invariant of the provider together with what
  it assumes of the code it calls, and \<open>calm\<close> says that no outside call fails.  A write either
  takes effect or leaves every cell alone; a deletion removes the cell or leaves it alone;
  neither touches another cell, whatever fails.  Loops of writes and deletions are analysed
  once here, for every provider.
\<close>

text \<open>
  A loop body that may erase the cell of its index, always goes on, and touches no other cell.
\<close>

definition erases ::
  "('w \<Rightarrow> bool) \<Rightarrow> bool \<Rightarrow> ('w \<Rightarrow> 'k \<Rightarrow> 'v option) \<Rightarrow> ('k \<Rightarrow> ('w, unit) io) \<Rightarrow> bool" where
  "erases good calm view body \<longleftrightarrow>
     (\<forall>k w r w'. good w \<longrightarrow> body k w = (r, w') \<longrightarrow>
        r = Inr () \<and> good w' \<and> (\<forall>k'. k' \<noteq> k \<longrightarrow> view w' k' = view w k') \<and>
        (view w' k = None \<or> view w' k = view w k) \<and> (calm \<longrightarrow> view w' k = None))"

text \<open>An action that does not touch the cells.\<close>

definition ignores ::
  "('w \<Rightarrow> bool) \<Rightarrow> ('w \<Rightarrow> 'k \<Rightarrow> 'v option) \<Rightarrow> ('w, 'a) io \<Rightarrow> bool" where
  "ignores good view m \<longleftrightarrow> (\<forall>w r w'. good w \<longrightarrow> m w = (r, w') \<longrightarrow> good w' \<and> view w' = view w)"

lemma ignoresD:
  "ignores good view m \<Longrightarrow> good w \<Longrightarrow> m w = (r, w') \<Longrightarrow> good w'"
  "ignores good view m \<Longrightarrow> good w \<Longrightarrow> m w = (r, w') \<Longrightarrow> view w' = view w"
  by (auto simp: ignores_def)

lemma ignores_keeps: "ignores good view m \<longleftrightarrow> (\<forall>v. keeps (\<lambda>w. good w \<and> view w = v) m)"
  unfolding ignores_def keeps_def by (metis prod.collapse snd_conv)

lemma erasesD:
  assumes "erases good calm view body" and "good w" and "body k w = (r, w')"
  shows "r = Inr ()" "good w'" "k' \<noteq> k \<Longrightarrow> view w' k' = view w k'"
    "view w' k = None \<or> view w' k = view w k" "calm \<Longrightarrow> view w' k = None"
  using assms by (auto simp: erases_def)

lemma erases_for:
  assumes "erases good calm view body" and "good w" and "io_for body ks w = (r, w')"
  shows "r = Inr () \<and> good w' \<and> (\<forall>k. k \<notin> set ks \<longrightarrow> view w' k = view w k) \<and>
    (\<forall>k. view w' k = None \<or> view w' k = view w k) \<and> (calm \<longrightarrow> (\<forall>k \<in> set ks. view w' k = None))"
  using assms(2,3)
proof (induction ks arbitrary: w)
  case Nil
  then show ?case by simp
next
  case (Cons k ks)
  obtain r1 w1 where k: "body k w = (r1, w1)" by (cases "body k w")
  note b = erasesD [OF assms(1) Cons.prems(1) k]
  from Cons.prems(2) k b(1) have rest: "io_for body ks w1 = (r, w')"
    by (simp add: io_seq_apply)
  from Cons.IH [OF b(2) rest] b show ?case by (auto, metis+)
qed

text \<open>Two actions in sequence, one of which erases and the other looks away.\<close>

lemma erases_seq_left:
  assumes e: "erases good calm view body" and i: "\<And>k. ignores good view (other k)"
    and r: "\<And>k w. good w \<Longrightarrow> fst (other k w) = Inr ()"
  shows "erases good calm view (\<lambda>k. io_seq (other k) (body k))"
  unfolding erases_def
proof (intro allI impI)
  fix k w x w'
  assume g: "good w" and run: "io_seq (other k) (body k) w = (x, w')"
  obtain r1 w1 where o: "other k w = (r1, w1)" by (cases "other k w")
  with r [OF g, of k] run have b: "body k w1 = (x, w')" by (simp add: io_seq_apply)
  have "good w1" "view w1 = view w" using ignoresD [OF i g o] by auto
  with erasesD [OF e _ b] show "x = Inr () \<and> good w' \<and> (\<forall>k'. k' \<noteq> k \<longrightarrow> view w' k' = view w k') \<and>
      (view w' k = None \<or> view w' k = view w k) \<and> (calm \<longrightarrow> view w' k = None)"
    by metis
qed

lemma erases_seq_right:
  assumes e: "erases good calm view body" and i: "\<And>k. ignores good view (other k)"
    and r: "\<And>k w. good w \<Longrightarrow> fst (other k w) = Inr ()"
  shows "erases good calm view (\<lambda>k. io_seq (body k) (other k))"
  unfolding erases_def
proof (intro allI impI)
  fix k w x w'
  assume g: "good w" and run: "io_seq (body k) (other k) w = (x, w')"
  obtain r1 w1 where b: "body k w = (r1, w1)" by (cases "body k w")
  note bb = erasesD [OF e g b]
  from run b bb(1) have o: "other k w1 = (x, w')" by (simp add: io_seq_apply)
  have "good w'" "view w' = view w1" using ignoresD [OF i bb(2) o] by auto
  with bb r [OF bb(2), of k] o show "x = Inr () \<and> good w' \<and> (\<forall>k'. k' \<noteq> k \<longrightarrow> view w' k' = view w k') \<and>
      (view w' k = None \<or> view w' k = view w k) \<and> (calm \<longrightarrow> view w' k = None)"
    by (metis fst_conv)
qed

locale cell_store =
  fixes good :: "'w \<Rightarrow> bool"
    and calm :: bool
    and view :: "'w \<Rightarrow> 'k \<Rightarrow> 'v option"
    and put :: "'k \<Rightarrow> 'v \<Rightarrow> ('w, unit) io"
    and del :: "'k \<Rightarrow> ('w, unit) io"
  assumes put_frame: "good w \<Longrightarrow> put k v w = (r, w') \<Longrightarrow> good w' \<and> (\<forall>k'. k' \<noteq> k \<longrightarrow> view w' k' = view w k')"
    and put_ok: "good w \<Longrightarrow> put k v w = (Inr (), w') \<Longrightarrow> view w' k = Some v"
    and put_err: "good w \<Longrightarrow> put k v w = (Inl f, w') \<Longrightarrow> view w' k = view w k \<and> (\<exists>m. f = Error m)"
    and put_calm: "good w \<Longrightarrow> calm \<Longrightarrow> fst (put k v w) = Inr ()"
    and del_frame: "good w \<Longrightarrow> del k w = (r, w') \<Longrightarrow> good w' \<and> (\<forall>k'. k' \<noteq> k \<longrightarrow> view w' k' = view w k')"
    and del_cell: "good w \<Longrightarrow> del k w = (r, w') \<Longrightarrow> view w' k = None \<or> view w' k = view w k"
    and del_err: "good w \<Longrightarrow> del k w = (Inl f, w') \<Longrightarrow> \<exists>m. f = Error m"
    and del_calm: "good w \<Longrightarrow> calm \<Longrightarrow> fst (del k w) = Inr () \<and> view (snd (del k w)) k = None"
begin

lemma put_view:
  "good w \<Longrightarrow> put k v w = (Inr (), w') \<Longrightarrow> view w' = (view w)(k \<mapsto> v)"
  using put_frame put_ok by (fastforce simp: fun_eq_iff)

lemma put_err_view:
  "good w \<Longrightarrow> put k v w = (Inl f, w') \<Longrightarrow> view w' = view w"
  by (rule ext) (metis put_err put_frame)

lemma ignore_del:
  assumes "good w" and "io_ignore (del k) w = (r, w')"
  shows "r = Inr () \<and> (\<exists>r0. del k w = (r0, w'))"
proof (cases "fst (del k w)")
  case (Inl f)
  with assms(1) obtain m where "f = Error m" by (metis del_err prod.collapse)
  with Inl assms(2) show ?thesis
    by (cases "del k w") (auto simp: io_ignore_def io_bind_apply io_try_apply)
next
  case (Inr x)
  with assms(2) show ?thesis
    by (cases "del k w") (auto simp: io_ignore_def io_bind_apply io_try_apply)
qed

lemma erases_del: "erases good calm view (\<lambda>k. io_ignore (del k))"
  unfolding erases_def
proof (intro allI impI)
  fix k w r w'
  assume g: "good w" and run: "io_ignore (del k) w = (r, w')"
  from ignore_del [OF this] obtain r0 where "r = Inr ()" and d: "del k w = (r0, w')" by blast
  with del_frame [OF g d] del_cell [OF g d] del_calm [OF g, of k]
  show "r = Inr () \<and> good w' \<and> (\<forall>k'. k' \<noteq> k \<longrightarrow> view w' k' = view w k') \<and>
      (view w' k = None \<or> view w' k = view w k) \<and> (calm \<longrightarrow> view w' k = None)"
    by auto
qed

text \<open>A loop of writes that returns has written every cell; the last write of a cell wins.\<close>

lemma put_all_ok:
  assumes "good w" and "io_for (\<lambda>(k, v). put k v) kvs w = (Inr (), w')"
  shows "good w' \<and> view w' = view w ++ map_of (rev kvs)"
  using assms
proof (induction kvs arbitrary: w)
  case Nil
  then show ?case by simp
next
  case (Cons kv kvs)
  obtain k v where kv: "kv = (k, v)" by (cases kv)
  from Cons.prems(2) obtain x w1 where p: "put k v w = (Inr x, w1)"
    and rest: "io_for (\<lambda>(k, v). put k v) kvs w1 = (Inr (), w')"
    by (auto simp: kv elim: io_seq_okE)
  from p have p': "put k v w = (Inr (), w1)" by simp
  from put_frame [OF Cons.prems(1) p'] have "good w1" by blast
  from Cons.IH [OF this rest] put_view [OF Cons.prems(1) p'] show ?case
    by (auto simp: kv map_add_def fun_eq_iff split: option.split)
qed

lemma put_all_frame:
  assumes "good w" and "io_for (\<lambda>(k, v). put k v) kvs w = (r, w')"
  shows "good w' \<and> (\<forall>k. k \<notin> fst ` set kvs \<longrightarrow> view w' k = view w k)"
  using assms
proof (induction kvs arbitrary: w)
  case Nil
  then show ?case by simp
next
  case (Cons kv kvs)
  obtain k v where kv: "kv = (k, v)" by (cases kv)
  obtain r1 w1 where p: "put k v w = (r1, w1)" by (cases "put k v w")
  note f = put_frame [OF Cons.prems(1) p]
  show ?case
  proof (cases r1)
    case (Inl e)
    with Cons.prems(2) p kv f show ?thesis by (auto simp: io_seq_apply)
  next
    case (Inr u)
    with Cons.prems(2) p kv have "io_for (\<lambda>(k, v). put k v) kvs w1 = (r, w')"
      by (auto simp: io_seq_apply)
    with Cons.IH f kv show ?thesis by auto
  qed
qed

lemma put_all_calm:
  assumes "good w" and calm
  shows "\<exists>w'. io_for (\<lambda>(k, v). put k v) kvs w = (Inr (), w')"
  using assms(1)
proof (induction kvs arbitrary: w)
  case Nil
  then show ?case by simp
next
  case (Cons kv kvs)
  obtain k v where kv: "kv = (k, v)" by (cases kv)
  from put_calm [OF Cons.prems assms(2), of k v] obtain w1 where p: "put k v w = (Inr (), w1)"
    by (cases "put k v w") auto
  with put_frame [OF Cons.prems p] Cons.IH [of w1] show ?case
    by (auto simp: kv io_seq_apply)
qed

end

end
