(* ===== verification/Metadata.thy ===== *)
theory Metadata
  imports World Store_Interface
begin

text \<open>
  \<open>src/cache/metadata.rs\<close>: the metadata database, two tables of JSON documents, \<open>objects\<close> by
  object key and \<open>chunks\<close> by object key and chunk index.

  A write transaction that fails anywhere before its commit is aborted when it is dropped, so
  an operation is one outside call that fails with no effect or succeeds; serialising the value
  may fail on its own.
\<close>

section \<open>Tables\<close>

definition tbl_get :: "table \<Rightarrow> string \<Rightarrow> bytes option" where
  "tbl_get t k = map_of t k"

fun tbl_insert :: "string \<Rightarrow> bytes \<Rightarrow> table \<Rightarrow> table" where
  "tbl_insert k v [] = [(k, v)]"
| "tbl_insert k v ((k', v') # t) =
     (if k < k' then (k, v) # (k', v') # t
      else if k = k' then (k, v) # t
      else (k', v') # tbl_insert k v t)"

definition tbl_remove :: "string \<Rightarrow> table \<Rightarrow> table" where
  "tbl_remove k t = filter (\<lambda>(k', _). k' \<noteq> k) t"

definition tbl_ok :: "table \<Rightarrow> bool" where
  "tbl_ok t \<longleftrightarrow> sorted_wrt (<) (map fst t)"

section \<open>The operations of MetadataDb\<close>

text \<open>\<open>Database::create\<close> and the transaction that opens both tables, which keeps their contents.\<close>

definition metadata_db_new :: "env \<Rightarrow> unit act" where
  "metadata_db_new e = io_seq (attempt e) (attempt e)"

definition get_object :: "env \<Rightarrow> string \<Rightarrow> object_metadata option act" where
  "get_object e key =
     io_seq (attempt e)
      (io_bind (io_read (\<lambda>w. tbl_get (objects w) key)) (\<lambda>guard.
        case guard of
          Some v \<Rightarrow> io_bind (io_lift (de_object e v)) (\<lambda>meta. io_return (Some meta))
        | None \<Rightarrow> io_return None))"

definition put_object :: "env \<Rightarrow> string \<Rightarrow> object_metadata \<Rightarrow> unit act" where
  "put_object e key meta =
     io_bind (io_lift (ser_object e meta)) (\<lambda>b.
     io_seq (attempt e)
      (io_modify (\<lambda>w. w\<lparr>objects := tbl_insert key b (objects w)\<rparr>)))"

definition delete_object :: "env \<Rightarrow> string \<Rightarrow> unit act" where
  "delete_object e key =
     io_seq (attempt e)
      (io_modify (\<lambda>w. w\<lparr>objects := tbl_remove key (objects w)\<rparr>))"

text \<open>\<open>format!("{}:{}", key, chunk_idx)\<close>\<close>

definition chunk_db_key :: "string \<Rightarrow> u64 \<Rightarrow> string" where
  "chunk_db_key key idx = key @ '':'' @ show_u64 idx"

definition get_chunk :: "env \<Rightarrow> string \<Rightarrow> u64 \<Rightarrow> chunk_metadata option act" where
  "get_chunk e key idx =
     io_seq (attempt e)
      (io_bind (io_read (\<lambda>w. tbl_get (chunks w) (chunk_db_key key idx))) (\<lambda>guard.
        case guard of
          Some v \<Rightarrow> io_bind (io_lift (de_chunk e v)) (\<lambda>chunk. io_return (Some chunk))
        | None \<Rightarrow> io_return None))"

definition put_chunk :: "env \<Rightarrow> string \<Rightarrow> u64 \<Rightarrow> chunk_metadata \<Rightarrow> unit act" where
  "put_chunk e key idx chunk =
     io_bind (io_lift (ser_chunk e chunk)) (\<lambda>b.
     io_seq (attempt e)
      (io_modify (\<lambda>w. w\<lparr>chunks := tbl_insert (chunk_db_key key idx) b (chunks w)\<rparr>)))"

definition delete_chunk :: "env \<Rightarrow> string \<Rightarrow> u64 \<Rightarrow> unit act" where
  "delete_chunk e key idx =
     io_seq (attempt e)
      (io_modify (\<lambda>w. w\<lparr>chunks := tbl_remove (chunk_db_key key idx) (chunks w)\<rparr>))"

text \<open>The iteration over the chunk table stops at the first entry that is not a chunk.\<close>

fun decode_all :: "env \<Rightarrow> table \<Rightarrow> string + (string \<times> chunk_metadata) list" where
  "decode_all e [] = Inr []"
| "decode_all e ((k, v) # t) =
     (case de_chunk e v of
        Inl msg \<Rightarrow> Inl msg
      | Inr c \<Rightarrow> (case decode_all e t of Inl msg \<Rightarrow> Inl msg | Inr cs \<Rightarrow> Inr ((k, c) # cs)))"

definition list_all_chunks :: "env \<Rightarrow> (string \<times> chunk_metadata) list act" where
  "list_all_chunks e =
     io_seq (attempt e)
      (io_bind (io_read chunks) (\<lambda>table. io_lift (decode_all e table)))"

section \<open>Views and assumptions\<close>

text \<open>\<open>serde_json\<close> reads back what it wrote.\<close>

definition codec_ok :: "env \<Rightarrow> bool" where
  "codec_ok e \<longleftrightarrow>
     (\<forall>m b. ser_object e m = Inr b \<longrightarrow> de_object e b = Inr m) \<and>
     (\<forall>c b. ser_chunk e c = Inr b \<longrightarrow> de_chunk e b = Inr c)"

text \<open>
  The invariant of the tables: keys in order, chunk keys of the form \<open>key:index\<close>, and every
  document readable.
\<close>

definition chunk_keys_ok :: "table \<Rightarrow> bool" where
  "chunk_keys_ok t \<longleftrightarrow> (\<forall>(k, v) \<in> set t. \<exists>key idx. k = chunk_db_key key idx)"

definition documents_ok :: "(bytes \<Rightarrow> string + 'a) \<Rightarrow> table \<Rightarrow> bool" where
  "documents_ok de t \<longleftrightarrow> (\<forall>(k, v) \<in> set t. \<exists>x. de v = Inr x)"

text \<open>No outside call fails, and every value can be serialised.\<close>

definition faultless :: "env \<Rightarrow> bool" where
  "faultless e \<longleftrightarrow> io_fault e = (\<lambda>_. None) \<and>
     (\<forall>m. \<exists>b. ser_object e m = Inr b) \<and> (\<forall>c. \<exists>b. ser_chunk e c = Inr b)"

definition db_good :: "env \<Rightarrow> world \<Rightarrow> bool" where
  "db_good e w \<longleftrightarrow> codec_ok e \<and> tbl_ok (objects w) \<and> tbl_ok (chunks w) \<and>
     documents_ok (de_object e) (objects w) \<and> documents_ok (de_chunk e) (chunks w) \<and>
     chunk_keys_ok (chunks w)"

definition object_of :: "env \<Rightarrow> world \<Rightarrow> string \<Rightarrow> object_metadata option" where
  "object_of e w key =
     (case tbl_get (objects w) key of
        None \<Rightarrow> None
      | Some v \<Rightarrow> (case de_object e v of Inl _ \<Rightarrow> None | Inr m \<Rightarrow> Some m))"

definition chunk_of :: "env \<Rightarrow> world \<Rightarrow> string \<times> u64 \<Rightarrow> chunk_metadata option" where
  "chunk_of e w = (\<lambda>(key, idx).
     (case tbl_get (chunks w) (chunk_db_key key idx) of
        None \<Rightarrow> None
      | Some v \<Rightarrow> (case de_chunk e v of Inl _ \<Rightarrow> None | Inr c \<Rightarrow> Some c)))"

section \<open>Lemmas: tables\<close>

lemma tbl_get_insert [simp]: "tbl_get (tbl_insert k v t) k' = (if k' = k then Some v else tbl_get t k')"
  by (induction k v t rule: tbl_insert.induct) (auto simp: tbl_get_def)

lemma tbl_get_remove [simp]: "tbl_get (tbl_remove k t) k' = (if k' = k then None else tbl_get t k')"
  by (induction t) (auto simp: tbl_get_def tbl_remove_def)

lemma fst_set_tbl_insert: "fst ` set (tbl_insert k v t) = insert k (fst ` set t)"
  by (induction k v t rule: tbl_insert.induct) auto

lemma tbl_ok_insert [simp]: "tbl_ok t \<Longrightarrow> tbl_ok (tbl_insert k v t)"
proof (induction k v t rule: tbl_insert.induct)
  case (1 k v)
  then show ?case by (simp add: tbl_ok_def)
next
  case (2 k v k' v' t)
  then show ?case
    using fst_set_tbl_insert [of k v t] by (auto simp: tbl_ok_def)
qed

lemma tbl_ok_remove [simp]: "tbl_ok t \<Longrightarrow> tbl_ok (tbl_remove k t)"
proof -
  have "map fst (tbl_remove k t) = filter (\<lambda>k'. k' \<noteq> k) (map fst t)"
    by (induction t) (auto simp: tbl_remove_def)
  then show "tbl_ok t \<Longrightarrow> tbl_ok (tbl_remove k t)" by (simp add: tbl_ok_def sorted_wrt_filter)
qed

lemma tbl_ok_distinct: "tbl_ok t \<Longrightarrow> distinct (map fst t)"
  by (simp add: tbl_ok_def strict_sorted_iff)

lemma tbl_get_in: "tbl_ok t \<Longrightarrow> tbl_get t k = Some v \<longleftrightarrow> (k, v) \<in> set t"
  by (simp add: tbl_get_def tbl_ok_distinct)

lemma set_tbl_insert: "set (tbl_insert k v t) \<subseteq> insert (k, v) (set t)"
  by (induction k v t rule: tbl_insert.induct) auto

lemma documents_ok_insert [simp]: "documents_ok de t \<Longrightarrow> de v = Inr x \<Longrightarrow> documents_ok de (tbl_insert k v t)"
  using set_tbl_insert [of k v t] by (fastforce simp: documents_ok_def)

lemma documents_ok_remove [simp]: "documents_ok de t \<Longrightarrow> documents_ok de (tbl_remove k t)"
  by (auto simp: documents_ok_def tbl_remove_def)

lemma chunk_keys_ok_insert [simp]: "chunk_keys_ok t \<Longrightarrow> chunk_keys_ok (tbl_insert (chunk_db_key k i) v t)"
  using set_tbl_insert [of "chunk_db_key k i" v t] by (fastforce simp: chunk_keys_ok_def)

lemma chunk_keys_ok_remove [simp]: "chunk_keys_ok t \<Longrightarrow> chunk_keys_ok (tbl_remove k t)"
  by (auto simp: chunk_keys_ok_def tbl_remove_def)

lemma documents_ok_get: "documents_ok de t \<Longrightarrow> tbl_get t k = Some v \<Longrightarrow> \<exists>x. de v = Inr x"
  by (auto simp: documents_ok_def tbl_get_def dest!: map_of_SomeD)

section \<open>Lemmas: chunk keys\<close>

lemma chunk_db_key_inject [simp]:
  "chunk_db_key k i = chunk_db_key k' i' \<longleftrightarrow> k = k' \<and> i = i'"
  using append_sep_eq_iff_last [of "CHR '':''" "show_u64 i" "show_u64 i'" k k']
  by (simp add: chunk_db_key_def show_u64_no_sep)

text \<open>The last colon of a chunk key separates the object key from the index.\<close>

lemma rfind_chunk_db_key: "rfind_char (CHR '':'') (chunk_db_key k i) = Some (length k)"
  by (simp add: chunk_db_key_def rfind_char_append show_u64_no_sep)


section \<open>Lemmas: the operations\<close>

lemma errors_metadata [simp, errors_intros]:
  "errors_only (get_object e k)" "errors_only (put_object e k m)" "errors_only (delete_object e k)"
  "errors_only (get_chunk e k i)" "errors_only (put_chunk e k i c)" "errors_only (delete_chunk e k i)"
  "errors_only (list_all_chunks e)"
  unfolding get_object_def put_object_def delete_object_def get_chunk_def put_chunk_def delete_chunk_def
    list_all_chunks_def
  by (intro errors_intros)+

text \<open>A call counter that moves on changes no view.\<close>

lemma db_good_frame [simp]:
  "db_good e (w\<lparr>ticks := n\<rparr>) = db_good e w" "db_good e (w\<lparr>sent := s\<rparr>) = db_good e w"
  "db_good e (w\<lparr>files := f\<rparr>) = db_good e w"
  by (simp_all add: db_good_def)

lemma chunk_of_frame [simp]:
  "chunk_of e (w\<lparr>ticks := n\<rparr>) = chunk_of e w" "chunk_of e (w\<lparr>sent := s\<rparr>) = chunk_of e w"
  "chunk_of e (w\<lparr>files := f\<rparr>) = chunk_of e w" "chunk_of e (w\<lparr>objects := t\<rparr>) = chunk_of e w"
  by (simp_all add: chunk_of_def fun_eq_iff)

lemma object_of_frame [simp]:
  "object_of e (w\<lparr>ticks := n\<rparr>) = object_of e w" "object_of e (w\<lparr>sent := s\<rparr>) = object_of e w"
  "object_of e (w\<lparr>files := f\<rparr>) = object_of e w" "object_of e (w\<lparr>chunks := t\<rparr>) = object_of e w"
  by (simp_all add: object_of_def fun_eq_iff)

lemma same_db_views:
  assumes "same_db w w'"
  shows "db_good e w' = db_good e w" "chunk_of e w' = chunk_of e w" "object_of e w' = object_of e w"
  using assms by (simp_all add: same_db_def db_good_def chunk_of_def object_of_def fun_eq_iff)

lemma db_good_tables [simp]:
  "db_good e w \<Longrightarrow> ser_object e m = Inr b \<Longrightarrow> db_good e (w\<lparr>objects := tbl_insert k b (objects w)\<rparr>)"
  "db_good e w \<Longrightarrow> ser_chunk e c = Inr b \<Longrightarrow> db_good e (w\<lparr>chunks := tbl_insert (chunk_db_key k i) b (chunks w)\<rparr>)"
  "db_good e w \<Longrightarrow> db_good e (w\<lparr>objects := tbl_remove k (objects w)\<rparr>)"
  "db_good e w \<Longrightarrow> db_good e (w\<lparr>chunks := tbl_remove k (chunks w)\<rparr>)"
  by (auto simp: db_good_def codec_ok_def)

lemma not_faultless:
  "io_fault e n = Some m \<Longrightarrow> \<not> faultless e"
  "ser_object e om = Inl m \<Longrightarrow> \<not> faultless e"
  "ser_chunk e cm = Inl m \<Longrightarrow> \<not> faultless e"
  by (auto simp: faultless_def) (metis Inl_Inr_False)+

lemma faultless_attempt: "faultless e \<Longrightarrow> attempt e w = (Inr (), w\<lparr>ticks := Suc (ticks w)\<rparr>)"
  by (simp add: attempt_def faultless_def)

text \<open>Reading: the table is not changed, and a value that is returned is the one in the view.\<close>

lemma get_chunk_cases:
  assumes "db_good e w"
  obtains m where "get_chunk e k i w = (Inl (Error m), w\<lparr>ticks := Suc (ticks w)\<rparr>)" and "\<not> faultless e"
  | "get_chunk e k i w = (Inr (chunk_of e w (k, i)), w\<lparr>ticks := Suc (ticks w)\<rparr>)"
proof (cases rule: attempt_cases [of e w])
  case (1 m)
  with that(1) show ?thesis by (auto simp: get_chunk_def io_seq_apply not_faultless)
next
  case 2
  with assms that(2) show ?thesis
    by (fastforce simp: get_chunk_def io_seq_apply io_bind_apply chunk_of_def db_good_def
        dest: documents_ok_get split: option.splits sum.splits)
qed

lemma get_object_cases:
  assumes "db_good e w"
  obtains m where "get_object e k w = (Inl (Error m), w\<lparr>ticks := Suc (ticks w)\<rparr>)" and "\<not> faultless e"
  | "get_object e k w = (Inr (object_of e w k), w\<lparr>ticks := Suc (ticks w)\<rparr>)"
proof (cases rule: attempt_cases [of e w])
  case (1 m)
  with that(1) show ?thesis by (auto simp: get_object_def io_seq_apply not_faultless)
next
  case 2
  with assms that(2) show ?thesis
    by (fastforce simp: get_object_def io_seq_apply io_bind_apply object_of_def db_good_def
        dest: documents_ok_get split: option.splits sum.splits)
qed

text \<open>Writing and deleting: either nothing but the counter changes, or the operation took effect.\<close>

lemma put_chunk_cases:
  obtains m n where "put_chunk e k i c w = (Inl (Error m), w\<lparr>ticks := n\<rparr>)" and "\<not> faultless e"
  | b where "put_chunk e k i c w =
      (Inr (), w\<lparr>chunks := tbl_insert (chunk_db_key k i) b (chunks w), ticks := Suc (ticks w)\<rparr>)"
    and "ser_chunk e c = Inr b"
proof (cases "ser_chunk e c")
  case (Inl m)
  with that(1) [of m "ticks w"] show ?thesis by (auto simp: put_chunk_def io_bind_apply not_faultless)
next
  case (Inr b)
  with that show ?thesis
    by (cases rule: attempt_cases [of e w])
      (auto simp: put_chunk_def io_bind_apply io_seq_apply not_faultless)
qed

lemma put_object_cases:
  obtains m n where "put_object e k c w = (Inl (Error m), w\<lparr>ticks := n\<rparr>)" and "\<not> faultless e"
  | b where "put_object e k c w =
      (Inr (), w\<lparr>objects := tbl_insert k b (objects w), ticks := Suc (ticks w)\<rparr>)"
    and "ser_object e c = Inr b"
proof (cases "ser_object e c")
  case (Inl m)
  with that(1) [of m "ticks w"] show ?thesis by (auto simp: put_object_def io_bind_apply not_faultless)
next
  case (Inr b)
  with that show ?thesis
    by (cases rule: attempt_cases [of e w])
      (auto simp: put_object_def io_bind_apply io_seq_apply not_faultless)
qed

lemma delete_chunk_cases:
  obtains m where "delete_chunk e k i w = (Inl (Error m), w\<lparr>ticks := Suc (ticks w)\<rparr>)" and "\<not> faultless e"
  | "delete_chunk e k i w =
      (Inr (), w\<lparr>chunks := tbl_remove (chunk_db_key k i) (chunks w), ticks := Suc (ticks w)\<rparr>)"
  by (cases rule: attempt_cases [of e w]) (auto simp: delete_chunk_def io_seq_apply not_faultless)

lemma delete_object_cases:
  obtains m where "delete_object e k w = (Inl (Error m), w\<lparr>ticks := Suc (ticks w)\<rparr>)" and "\<not> faultless e"
  | "delete_object e k w =
      (Inr (), w\<lparr>objects := tbl_remove k (objects w), ticks := Suc (ticks w)\<rparr>)"
  by (cases rule: attempt_cases [of e w]) (auto simp: delete_object_def io_seq_apply not_faultless)

lemma chunk_of_insert:
  "codec_ok e \<Longrightarrow> ser_chunk e c = Inr b \<Longrightarrow>
   chunk_of e (w\<lparr>chunks := tbl_insert (chunk_db_key k i) b (chunks w)\<rparr>) = (chunk_of e w)((k, i) \<mapsto> c)"
  by (auto simp: chunk_of_def fun_eq_iff codec_ok_def split: option.split)

lemma chunk_of_remove:
  "chunk_of e (w\<lparr>chunks := tbl_remove (chunk_db_key k i) (chunks w)\<rparr>) = (chunk_of e w)((k, i) := None)"
  by (auto simp: chunk_of_def fun_eq_iff)

lemma object_of_insert:
  "codec_ok e \<Longrightarrow> ser_object e m = Inr b \<Longrightarrow>
   object_of e (w\<lparr>objects := tbl_insert k b (objects w)\<rparr>) = (object_of e w)(k \<mapsto> m)"
  by (auto simp: object_of_def fun_eq_iff codec_ok_def split: option.split)

lemma object_of_remove:
  "object_of e (w\<lparr>objects := tbl_remove k (objects w)\<rparr>) = (object_of e w)(k := None)"
  by (auto simp: object_of_def fun_eq_iff)

lemmas table_views = chunk_of_insert chunk_of_remove object_of_insert object_of_remove

section \<open>The database provides both collections of cells\<close>

lemma db_good_codec: "db_good e w \<Longrightarrow> codec_ok e"
  by (simp add: db_good_def)

lemma put_chunk_cell:
  assumes "db_good e w" and "put_chunk e k i c w = (r, w')"
  shows "db_good e w' \<and>
    (r = Inr () \<and> chunk_of e w' = (chunk_of e w)((k, i) \<mapsto> c) \<or>
     (\<exists>m. r = Inl (Error m)) \<and> chunk_of e w' = chunk_of e w \<and> \<not> faultless e)"
  using put_chunk_cases [of e k i c w] assms
  by cases (auto simp: table_views db_good_codec)

lemma delete_chunk_cell:
  assumes "db_good e w" and "delete_chunk e k i w = (r, w')"
  shows "db_good e w' \<and>
    (r = Inr () \<and> chunk_of e w' = (chunk_of e w)((k, i) := None) \<or>
     (\<exists>m. r = Inl (Error m)) \<and> chunk_of e w' = chunk_of e w \<and> \<not> faultless e)"
  using delete_chunk_cases [of e k i w] assms
  by cases (auto simp: table_views)

lemma put_object_cell:
  assumes "db_good e w" and "put_object e k m w = (r, w')"
  shows "db_good e w' \<and>
    (r = Inr () \<and> object_of e w' = (object_of e w)(k \<mapsto> m) \<or>
     (\<exists>m. r = Inl (Error m)) \<and> object_of e w' = object_of e w \<and> \<not> faultless e)"
  using put_object_cases [of e k m w] assms
  by cases (auto simp: table_views db_good_codec)

lemma delete_object_cell:
  assumes "db_good e w" and "delete_object e k w = (r, w')"
  shows "db_good e w' \<and>
    (r = Inr () \<and> object_of e w' = (object_of e w)(k := None) \<or>
     (\<exists>m. r = Inl (Error m)) \<and> object_of e w' = object_of e w \<and> \<not> faultless e)"
  using delete_object_cases [of e k w] assms
  by cases (auto simp: table_views)

interpretation chunk_db: cell_store "db_good e" "faultless e" "chunk_of e"
  "\<lambda>(k, i). put_chunk e k i" "\<lambda>(k, i). delete_chunk e k i" for e
proof (unfold_locales, goal_cases)
  case (1 w k v r w') then show ?case by (cases k) (auto dest: put_chunk_cell)
next
  case (2 w k v w') then show ?case by (cases k) (auto dest: put_chunk_cell)
next
  case (3 w k v f w') then show ?case by (cases k) (auto dest: put_chunk_cell)
next
  case (4 w k v) then show ?case using put_chunk_cell [of e w "fst k" "snd k" v]
    by (cases k) (cases "put_chunk e (fst k) (snd k) v w", auto)
next
  case (5 w k r w') then show ?case by (cases k) (auto dest: delete_chunk_cell)
next
  case (6 w k r w') then show ?case by (cases k) (auto dest: delete_chunk_cell)
next
  case (7 w k f w') then show ?case by (cases k) (auto dest: delete_chunk_cell)
next
  case (8 w k) then show ?case using delete_chunk_cell [of e w "fst k" "snd k"]
    by (cases k) (cases "delete_chunk e (fst k) (snd k) w", auto)
qed

interpretation object_db: cell_store "db_good e" "faultless e" "object_of e"
  "put_object e" "delete_object e" for e
proof (unfold_locales, goal_cases)
  case (1 w k v r w') then show ?case by (auto dest: put_object_cell)
next
  case (2 w k v w') then show ?case by (auto dest: put_object_cell)
next
  case (3 w k v f w') then show ?case by (auto dest: put_object_cell)
next
  case (4 w k v) then show ?case using put_object_cell [of e w k v] by (cases "put_object e k v w") auto
next
  case (5 w k r w') then show ?case by (auto dest: delete_object_cell)
next
  case (6 w k r w') then show ?case by (auto dest: delete_object_cell)
next
  case (7 w k f w') then show ?case by (auto dest: delete_object_cell)
next
  case (8 w k) then show ?case using delete_object_cell [of e w k] by (cases "delete_object e k w") auto
qed

section \<open>The list of all chunks\<close>

definition chunk_list :: "env \<Rightarrow> world \<Rightarrow> (string \<times> chunk_metadata) list" where
  "chunk_list e w = map (\<lambda>(k, v). (k, projr (de_chunk e v))) (chunks w)"

lemma decode_all_ok:
  "documents_ok (de_chunk e) t \<Longrightarrow> decode_all e t = Inr (map (\<lambda>(k, v). (k, projr (de_chunk e v))) t)"
  by (induction t) (auto simp: documents_ok_def)

lemma list_all_chunks_cases:
  assumes "db_good e w"
  obtains m where "list_all_chunks e w = (Inl (Error m), w\<lparr>ticks := Suc (ticks w)\<rparr>)" and "\<not> faultless e"
  | "list_all_chunks e w = (Inr (chunk_list e w), w\<lparr>ticks := Suc (ticks w)\<rparr>)"
proof (cases rule: attempt_cases [of e w])
  case (1 m)
  with that(1) show ?thesis by (auto simp: list_all_chunks_def io_seq_apply not_faultless)
next
  case 2
  with assms that(2) show ?thesis
    by (auto simp: list_all_chunks_def io_seq_apply io_bind_apply chunk_list_def db_good_def decode_all_ok)
qed

lemma chunk_list_distinct: "db_good e w \<Longrightarrow> distinct (map fst (chunk_list e w))"
  by (simp add: chunk_list_def db_good_def tbl_ok_distinct comp_def case_prod_beta)

lemma chunk_list_keys: "db_good e w \<Longrightarrow> (k, c) \<in> set (chunk_list e w) \<Longrightarrow> \<exists>key idx. k = chunk_db_key key idx"
  by (fastforce simp: chunk_list_def db_good_def chunk_keys_ok_def)

lemma chunk_list_iff:
  assumes "db_good e w"
  shows "(chunk_db_key key idx, c) \<in> set (chunk_list e w) \<longleftrightarrow> chunk_of e w (key, idx) = Some c"
proof -
  let ?k = "chunk_db_key key idx"
  have "(?k, c) \<in> set (chunk_list e w) \<longleftrightarrow> (\<exists>v. (?k, v) \<in> set (chunks w) \<and> projr (de_chunk e v) = c)"
    by (force simp: chunk_list_def)
  also have "\<dots> \<longleftrightarrow> (\<exists>v. tbl_get (chunks w) ?k = Some v \<and> projr (de_chunk e v) = c)"
    using assms by (simp add: db_good_def tbl_get_in)
  also have "\<dots> \<longleftrightarrow> chunk_of e w (key, idx) = Some c"
    using assms documents_ok_get [of "de_chunk e" "chunks w" ?k]
    by (auto simp: chunk_of_def db_good_def split: option.split sum.split)
  finally show ?thesis .
qed

lemma chunk_list_frame [simp]:
  "chunk_list e (w\<lparr>ticks := n\<rparr>) = chunk_list e w" "chunk_list e (w\<lparr>files := f\<rparr>) = chunk_list e w"
  by (simp_all add: chunk_list_def)

lemma same_db_chunk_list: "same_db w w' \<Longrightarrow> chunk_list e w' = chunk_list e w"
  by (simp add: same_db_def chunk_list_def)

lemma chunk_list_remove:
  "chunk_list e (w\<lparr>chunks := tbl_remove k (chunks w)\<rparr>) = filter (\<lambda>(k', c). k' \<noteq> k) (chunk_list e w)"
  by (simp add: chunk_list_def tbl_remove_def filter_map comp_def case_prod_unfold)

end
