(* ===== verification/Storage.thy ===== *)
theory Storage
  imports World Store_Interface
begin

text \<open>
  \<open>src/cache/storage.rs\<close>: the chunk files.  A path is the list of its components; directories
  are not represented, creating them is an outside call that may fail.  A chunk is written to a
  temporary file beside its target and renamed over it; every one of these steps may fail, and
  a write that fails leaves some prefix of the data in the temporary file.
\<close>

record storage =
  cache_dir :: path

section \<open>Files\<close>

text \<open>\<open>Path::with_extension\<close>: the text after the last dot of the file name is replaced.\<close>

definition file_stem :: "string \<Rightarrow> string" where
  "file_stem name = (case rfind_char (CHR ''.'') name of
      None \<Rightarrow> name | Some 0 \<Rightarrow> name | Some i \<Rightarrow> take i name)"

definition with_extension :: "path \<Rightarrow> string \<Rightarrow> path" where
  "with_extension p ext = butlast p @ [file_stem (last p) @ ''.'' @ ext]"

text \<open>\<open>Path::exists\<close> answers \<open>false\<close> when the file cannot be examined.\<close>

definition path_exists :: "env \<Rightarrow> path \<Rightarrow> bool act" where
  "path_exists e p =
     io_bind (io_try (attempt e)) (\<lambda>r.
       case r of Inl _ \<Rightarrow> io_return False | Inr _ \<Rightarrow> io_read (\<lambda>w. files w p \<noteq> None))"

definition not_found :: string where
  "not_found = ''No such file or directory''"

definition fs_open :: "env \<Rightarrow> path \<Rightarrow> bytes act" where
  "fs_open e p =
     io_seq (attempt e) (io_bind (io_read (\<lambda>w. files w p)) (\<lambda>f.
       case f of None \<Rightarrow> io_fail (Error not_found) | Some content \<Rightarrow> io_return content))"

definition fs_create :: "env \<Rightarrow> path \<Rightarrow> unit act" where
  "fs_create e p = io_seq (attempt e) (io_modify (\<lambda>w. w\<lparr>files := (files w)(p \<mapsto> [])\<rparr>))"

definition fs_write_all :: "env \<Rightarrow> path \<Rightarrow> bytes \<Rightarrow> unit act" where
  "fs_write_all e p d = (\<lambda>w.
     case io_fault e (ticks w) of
       None \<Rightarrow> (Inr (), w\<lparr>files := (files w)(p \<mapsto> d), ticks := Suc (ticks w)\<rparr>)
     | Some msg \<Rightarrow> (Inl (Error msg),
         w\<lparr>files := (files w)(p \<mapsto> take (short_write e (ticks w)) d), ticks := Suc (ticks w)\<rparr>))"

definition fs_rename :: "env \<Rightarrow> path \<Rightarrow> path \<Rightarrow> unit act" where
  "fs_rename e p q =
     io_seq (attempt e) (io_bind (io_read (\<lambda>w. files w p)) (\<lambda>f.
       case f of None \<Rightarrow> io_fail (Error not_found)
       | Some d \<Rightarrow> io_modify (\<lambda>w. w\<lparr>files := (files w)(p := None, q \<mapsto> d)\<rparr>)))"

definition fs_remove_file :: "env \<Rightarrow> path \<Rightarrow> unit act" where
  "fs_remove_file e p =
     io_seq (attempt e) (io_bind (io_read (\<lambda>w. files w p)) (\<lambda>f.
       case f of None \<Rightarrow> io_fail (Error not_found)
       | Some _ \<Rightarrow> io_modify (\<lambda>w. w\<lparr>files := (files w)(p := None)\<rparr>)))"

section \<open>The operations of Storage\<close>

definition hash_hex :: "env \<Rightarrow> string \<Rightarrow> string" where
  "hash_hex e key = hex_encode e (sha256 e key)"

definition chunk_path :: "env \<Rightarrow> storage \<Rightarrow> string \<Rightarrow> u64 \<Rightarrow> path" where
  "chunk_path e st key chunk_idx =
     (let h = hash_hex e key
      in cache_dir st @ [''data'', take 2 h, take 2 (drop 2 h), h @ ''_'' @ show_u64 chunk_idx])"

definition ensure_parent_dir :: "env \<Rightarrow> path \<Rightarrow> unit act" where
  "ensure_parent_dir e p = (if p = [] then io_return () else attempt e)"

text \<open>\<open>read_exact\<close> fails when fewer bytes are left than asked for.\<close>

definition read_exact :: "env \<Rightarrow> bytes \<Rightarrow> nat \<Rightarrow> nat \<Rightarrow> bytes act" where
  "read_exact e content offset len =
     io_seq (attempt e)
       (if len = 0 \<or> offset + len \<le> length content then io_return (take len (drop offset content))
        else io_fail (Error ''early eof''))"

definition read_chunk_range :: "env \<Rightarrow> storage \<Rightarrow> string \<Rightarrow> u64 \<Rightarrow> u64 \<Rightarrow> u64 \<Rightarrow> bytes act" where
  "read_chunk_range e st key chunk_idx offset len =
     io_bind (fs_open e (chunk_path e st key chunk_idx)) (\<lambda>content.
     io_seq (if offset > 0 then attempt e else io_return ())
       (read_exact e content (unat offset) (unat len)))"

definition write_chunk :: "env \<Rightarrow> storage \<Rightarrow> string \<Rightarrow> u64 \<Rightarrow> bytes \<Rightarrow> unit act" where
  "write_chunk e st key chunk_idx d =
     (let target_path = chunk_path e st key chunk_idx;
          temp_path = with_extension target_path ''tmp''
      in io_seq (ensure_parent_dir e target_path)
         (io_seq (fs_create e temp_path)
         (io_seq (fs_write_all e temp_path d)
         (io_seq (attempt e)
           (fs_rename e temp_path target_path)))))"

text \<open>\<open>Storage::delete_chunk\<close>\<close>

definition delete_chunk_file :: "env \<Rightarrow> storage \<Rightarrow> string \<Rightarrow> u64 \<Rightarrow> unit act" where
  "delete_chunk_file e st key chunk_idx =
     (let path = chunk_path e st key chunk_idx
      in io_bind (path_exists e path) (\<lambda>ex. if ex then fs_remove_file e path else io_return ()))"

definition cleanup_temp_files :: "env \<Rightarrow> storage \<Rightarrow> unit act" where
  "cleanup_temp_files e st =
     io_bind (path_exists e (cache_dir st @ [''data''])) (\<lambda>ex.
       if \<not> ex then io_return () else io_return ())"

section \<open>Assumptions and views\<close>

text \<open>A SHA-256 digest in hexadecimal: 64 digits, lower case.\<close>

definition hash_ok :: "env \<Rightarrow> bool" where
  "hash_ok e \<longleftrightarrow> (\<forall>b. length (hex_encode e (sha256 e b)) = 64 \<and>
     set (hex_encode e (sha256 e b)) \<subseteq> set ''0123456789abcdef'')"

definition file_of :: "env \<Rightarrow> storage \<Rightarrow> string \<Rightarrow> world \<Rightarrow> u64 \<Rightarrow> bytes option" where
  "file_of e st key w idx = files w (chunk_path e st key idx)"

definition fs_good :: "env \<Rightarrow> world \<Rightarrow> bool" where
  "fs_good e w \<longleftrightarrow> hash_ok e"

definition disk_calm :: "env \<Rightarrow> bool" where
  "disk_calm e \<longleftrightarrow> io_fault e = (\<lambda>_. None)"

abbreviation temp_of :: "env \<Rightarrow> storage \<Rightarrow> string \<Rightarrow> u64 \<Rightarrow> path" where
  "temp_of e st key idx \<equiv> with_extension (chunk_path e st key idx) ''tmp''"

section \<open>Lemmas: paths\<close>

lemma hash_hex_no_sep:
  assumes "hash_ok e"
  shows "CHR ''_'' \<notin> set (hash_hex e k)" "CHR ''.'' \<notin> set (hash_hex e k)"
  using assms by (auto simp: hash_ok_def hash_hex_def)

lemma chunk_path_inject:
  assumes "hash_ok e"
  shows "chunk_path e st k i = chunk_path e st k' i' \<longleftrightarrow> hash_hex e k = hash_hex e k' \<and> i = i'"
proof
  assume "chunk_path e st k i = chunk_path e st k' i'"
  then have "hash_hex e k @ CHR ''_'' # show_u64 i = hash_hex e k' @ CHR ''_'' # show_u64 i'"
    by (simp add: chunk_path_def Let_def)
  then show "hash_hex e k = hash_hex e k' \<and> i = i'"
    using assms by (simp add: append_sep_eq_iff hash_hex_no_sep)
qed (simp add: chunk_path_def)

lemma temp_of_eq:
  assumes "hash_ok e"
  shows "temp_of e st k i = butlast (chunk_path e st k i) @ [last (chunk_path e st k i) @ ''.tmp'']"
proof -
  have "CHR ''.'' \<notin> set (last (chunk_path e st k i))"
    using hash_hex_no_sep [OF assms] show_u64_no_sep(3) by (simp add: chunk_path_def Let_def)
  then have "rfind_char (CHR ''.'') (last (chunk_path e st k i)) = None" by simp
  then show ?thesis by (simp only: with_extension_def file_stem_def option.case append_Cons append_Nil)
qed

text \<open>No temporary file is the file of a chunk, of the same or of another object.\<close>

lemma temp_not_chunk:
  assumes "hash_ok e"
  shows "temp_of e st k i \<noteq> chunk_path e st k' i'"
proof
  assume "temp_of e st k i = chunk_path e st k' i'"
  then have "last (temp_of e st k i) = last (chunk_path e st k' i')" by simp
  then have "last (chunk_path e st k i) @ ''.tmp'' = last (chunk_path e st k' i')"
    by (simp add: temp_of_eq [OF assms])
  moreover have "CHR ''.'' \<notin> set (last (chunk_path e st k' i'))"
    using hash_hex_no_sep [OF assms] show_u64_no_sep(3) by (simp add: chunk_path_def Let_def)
  ultimately show False by (metis UnCI list.set_intros(1) set_append)
qed

lemma chunk_path_nonempty [simp]: "chunk_path e st k i \<noteq> []"
  by (simp add: chunk_path_def Let_def)

section \<open>Lemmas: the operations\<close>

lemmas fs_defs = fs_open_def fs_create_def fs_write_all_def fs_rename_def fs_remove_file_def
  path_exists_def ensure_parent_dir_def read_exact_def

lemma errors_fs [simp, errors_intros]:
  "errors_only (path_exists e p)" "errors_only (fs_open e p)" "errors_only (fs_create e p)"
  "errors_only (fs_write_all e p d)" "errors_only (fs_rename e p q)" "errors_only (fs_remove_file e p)"
  "errors_only (ensure_parent_dir e p)" "errors_only (read_exact e c off len)"
proof -
  show "errors_only (fs_write_all e p d)"
    by (rule errors_onlyI) (auto simp: fs_write_all_def split: option.splits)
qed (unfold fs_defs, (intro errors_intros)+)

lemma errors_storage [simp, errors_intros]:
  "errors_only (read_chunk_range e st k i off n)" "errors_only (write_chunk e st k i d)"
  "errors_only (delete_chunk_file e st k i)" "errors_only (cleanup_temp_files e st)"
  unfolding read_chunk_range_def write_chunk_def delete_chunk_file_def cleanup_temp_files_def Let_def
  by (intro errors_intros)+

text \<open>Reads move the call counter and nothing else.\<close>

lemma keeps_path_exists: "(\<And>w n. P w \<Longrightarrow> P (w\<lparr>ticks := n\<rparr>)) \<Longrightarrow> keeps P (path_exists e p)"
  unfolding path_exists_def by (intro keeps_intros keeps_attempt)

lemma keeps_read_chunk_range:
  "(\<And>w n. P w \<Longrightarrow> P (w\<lparr>ticks := n\<rparr>)) \<Longrightarrow> keeps P (read_chunk_range e st k i off len)"
  unfolding read_chunk_range_def fs_open_def read_exact_def
  by (intro keeps_intros keeps_attempt)

text \<open>Writes and deletions move the call counter and change files.\<close>

lemma keeps_files:
  assumes "\<And>w f n. P w \<Longrightarrow> P (w\<lparr>files := f, ticks := n\<rparr>)"
  shows "keeps P (write_chunk e st k i d)" "keeps P (delete_chunk_file e st k i)"
proof -
  have t: "P w \<Longrightarrow> P (w\<lparr>ticks := n\<rparr>)" for w n
    using assms [where w = w and f = "files w" and n = n] by simp
  have f: "P w \<Longrightarrow> P (w\<lparr>files := f\<rparr>)" for w f
    using assms [where w = w and f = f and n = "ticks w"] by simp
  have m: "keeps P (io_modify (\<lambda>w. w\<lparr>files := g w\<rparr>))" for g
    by (rule keepsI) (auto intro: f)
  have wr: "keeps P (fs_write_all e p d)" for p
    by (rule keepsI) (auto simp: fs_write_all_def intro: assms split: option.splits)
  show "keeps P (write_chunk e st k i d)"
    unfolding write_chunk_def Let_def ensure_parent_dir_def fs_create_def fs_rename_def
    by (intro keeps_intros keeps_attempt t m wr)
  show "keeps P (delete_chunk_file e st k i)"
    unfolding delete_chunk_file_def Let_def path_exists_def fs_remove_file_def
    by (intro keeps_intros keeps_attempt t m)
qed

text \<open>The target of a write holds the old or the new chunk; no third file is touched.\<close>

lemma write_chunk_spec:
  assumes "hash_ok e" and "write_chunk e st k i d w = (r, w')"
  shows "r = Inr () \<and> files w' = (files w)(temp_of e st k i := None, chunk_path e st k i \<mapsto> d) \<or>
    (\<exists>m. r = Inl (Error m)) \<and> \<not> disk_calm e \<and> (\<exists>x. files w' = (files w)(temp_of e st k i := x))"
proof -
  let ?t = "chunk_path e st k i" and ?u = "temp_of e st k i"
  have ne: "?u \<noteq> ?t" by (rule temp_not_chunk [OF assms(1)])
  from assms(2) show ?thesis
    by (auto simp: write_chunk_def Let_def fs_defs io_seq_apply io_bind_apply attempt_def ne
        disk_calm_def fun_upd_twist split: option.splits intro: exI [of _ "files w ?u"])
qed

lemma write_chunk_cell:
  assumes "fs_good e w" and "write_chunk e st k i d w = (r, w')"
  shows "fs_good e w' \<and>
    (r = Inr () \<and> file_of e st k w' = (file_of e st k w)(i \<mapsto> d) \<or>
     (\<exists>m. r = Inl (Error m)) \<and> file_of e st k w' = file_of e st k w \<and> \<not> disk_calm e)"
proof -
  from assms(1) have h: "hash_ok e" by (simp add: fs_good_def)
  have "chunk_path e st k j \<noteq> temp_of e st k i" for j
    using temp_not_chunk [OF h, of st k i k j] by simp
  with write_chunk_spec [OF h assms(2)] h show ?thesis
    by (auto simp: file_of_def fun_eq_iff fs_good_def chunk_path_inject [OF h])
qed

lemma delete_chunk_file_spec:
  assumes "delete_chunk_file e st k i w = (r, w')"
  shows "(r = Inr () \<or> (\<exists>m. r = Inl (Error m)) \<and> \<not> disk_calm e) \<and>
    (files w' = files w \<and> (disk_calm e \<longrightarrow> files w (chunk_path e st k i) = None) \<or>
     files w' = (files w)(chunk_path e st k i := None))"
  using assms
  by (auto simp: delete_chunk_file_def Let_def fs_defs io_seq_apply io_bind_apply io_try_apply
      attempt_def disk_calm_def split: option.splits if_splits)

lemma delete_chunk_file_cell:
  assumes "fs_good e w" and "delete_chunk_file e st k i w = (r, w')"
  shows "fs_good e w' \<and> (r = Inr () \<or> (\<exists>m. r = Inl (Error m)) \<and> \<not> disk_calm e) \<and>
    (\<forall>j. j \<noteq> i \<longrightarrow> file_of e st k w' j = file_of e st k w j) \<and>
    (file_of e st k w' i = None \<or> file_of e st k w' i = file_of e st k w i) \<and>
    (disk_calm e \<longrightarrow> file_of e st k w' i = None)"
proof -
  from assms(1) have h: "hash_ok e" by (simp add: fs_good_def)
  from delete_chunk_file_spec [OF assms(2)] h show ?thesis
    by (auto simp: file_of_def fs_good_def chunk_path_inject [OF h])
qed

text \<open>A read returns a part of the file, and fails when the part is not there.\<close>

lemma read_chunk_range_spec:
  assumes "read_chunk_range e st k i off len w = (r, w')"
  shows "(case r of
      Inr b \<Rightarrow> \<exists>c. file_of e st k w i = Some c \<and> b = take (unat len) (drop (unat off) c) \<and>
        (len = 0 \<or> unat off + unat len \<le> length c)
    | Inl f \<Rightarrow> \<exists>m. f = Error m) \<and> (\<exists>n. w' = w\<lparr>ticks := n\<rparr>)"
  using assms
  by (auto simp: read_chunk_range_def fs_defs io_seq_apply io_bind_apply attempt_def file_of_def
      unat_eq_zero split: option.splits if_splits)

lemma read_chunk_range_calm:
  assumes "disk_calm e" and "file_of e st k w i = Some c" and "unat off + unat len \<le> length c"
  shows "\<exists>n. read_chunk_range e st k i off len w = (Inr (take (unat len) (drop (unat off) c)), w\<lparr>ticks := n\<rparr>)"
  using assms
  by (auto simp: read_chunk_range_def fs_defs io_seq_apply io_bind_apply attempt_def file_of_def
      disk_calm_def)

section \<open>The files of one object are a collection of cells\<close>

interpretation chunk_files: cell_store "fs_good e" "disk_calm e" "file_of e st key"
  "write_chunk e st key" "delete_chunk_file e st key" for e st key
proof (unfold_locales, goal_cases)
  case (1 w k v r w') then show ?case by (auto dest: write_chunk_cell)
next
  case (2 w k v w') then show ?case by (auto dest: write_chunk_cell)
next
  case (3 w k v f w') then show ?case by (auto dest: write_chunk_cell)
next
  case (4 w k v) then show ?case
    using write_chunk_cell [of e w st key k v] by (cases "write_chunk e st key k v w") auto
next
  case (5 w k r w') then show ?case by (auto dest: delete_chunk_file_cell)
next
  case (6 w k r w') then show ?case by (auto dest: delete_chunk_file_cell)
next
  case (7 w k f w') then show ?case by (auto dest: delete_chunk_file_cell)
next
  case (8 w k) then show ?case
    using delete_chunk_file_cell [of e w st key k] by (cases "delete_chunk_file e st key k w") auto
qed

end
