(* ===== verification/Utils.thy ===== *)
theory Utils
  imports World
begin

text \<open>
  \<open>src/utils.rs\<close>: client credentials, the S3 errors and their XML answers, percent encoding and
  decoding.
\<close>

section \<open>Credentials and errors\<close>

record client_credentials =
  cc_access_key :: string
  cc_secret_key :: string
  cc_session_token :: "string option"

datatype s3_error = NoSuchKey | NoSuchBucket | InvalidAccessKeyId | SignatureDoesNotMatch | Internal string

definition xml_header :: string where
  "xml_header = ''<?xml version=\"1.0\" encoding=\"UTF-8\"?>'' @ [CHR 0x0A]"

definition error_parts :: "s3_error \<Rightarrow> nat \<times> string \<times> string" where
  "error_parts err = (case err of
      NoSuchKey \<Rightarrow> (404, ''NoSuchKey'', ''The specified key does not exist.'')
    | NoSuchBucket \<Rightarrow> (404, ''NoSuchBucket'', ''The specified bucket does not exist.'')
    | InvalidAccessKeyId \<Rightarrow> (403, ''InvalidAccessKeyId'',
        ''The AWS Access Key Id you provided does not exist in our records.'')
    | SignatureDoesNotMatch \<Rightarrow> (403, ''SignatureDoesNotMatch'',
        ''The request signature we calculated does not match the signature you provided.'')
    | Internal _ \<Rightarrow> (500, ''InternalError'', ''We encountered an internal error. Please try again.''))"

definition to_xml :: "env \<Rightarrow> s3_error \<Rightarrow> nat \<times> string" where
  "to_xml e err =
     (let (st, code, msg) = error_parts err;
          xml_struct = \<lparr>xml_code = code, xml_message = msg, xml_resource = None,
            xml_request_id = ''tx000000000000000000001''\<rparr>
      in (st, case xml_ser e xml_struct of
            Inr s \<Rightarrow> xml_header @ s
          | Inl _ \<Rightarrow> xml_header @
              ''<Error><Code>InternalError</Code><Message>Failed to serialize error XML</Message></Error>''))"

text \<open>\<open>into_response\<close>: \<open>Response::builder\<close> appends the one header; its body is one piece.\<close>

definition error_response :: "env \<Rightarrow> s3_error \<Rightarrow> http_response" where
  "error_response e err =
     (let (st, xml_body) = to_xml e err
      in \<lparr>rs_status = st, rs_headers = [(''content-type'', ''application/xml'')], rs_body = [Inr xml_body]\<rparr>)"

section \<open>Percent encoding\<close>

definition byte_val :: "char \<Rightarrow> nat" where
  "byte_val c = of_char c"

definition unreserved :: "char \<Rightarrow> bool" where
  "unreserved c \<longleftrightarrow>
     CHR ''A'' \<le> c \<and> c \<le> CHR ''Z'' \<or> CHR ''a'' \<le> c \<and> c \<le> CHR ''z'' \<or> CHR ''0'' \<le> c \<and> c \<le> CHR ''9'' \<or>
     c = CHR ''-'' \<or> c = CHR ''.'' \<or> c = CHR ''_'' \<or> c = CHR ''~''"

text \<open>\<open>format!("%{:02X}", byte)\<close>\<close>

definition upper_hex :: "nat \<Rightarrow> char" where
  "upper_hex d = (if d < 10 then char_of (48 + d) else char_of (55 + d))"

definition percent_hex :: "char \<Rightarrow> string" where
  "percent_hex c = [CHR ''%'', upper_hex (byte_val c div 16), upper_hex (byte_val c mod 16)]"

fun s3_percent_encode :: "string \<Rightarrow> string" where
  "s3_percent_encode [] = []"
| "s3_percent_encode (c # cs) =
     (if unreserved c then [c] else percent_hex c) @ s3_percent_encode cs"

section \<open>Percent decoding\<close>

definition hex_value :: "char \<Rightarrow> nat option" where
  "hex_value c =
     (let k = byte_val c in
      if 48 \<le> k \<and> k \<le> 57 then Some (k - 48)
      else if 65 \<le> k \<and> k \<le> 70 then Some (k - 55)
      else if 97 \<le> k \<and> k \<le> 102 then Some (k - 87)
      else None)"

text \<open>
  \<open>u8::from_str_radix(s, 16)\<close> on a string of two characters: a leading \<open>+\<close> is a sign.
\<close>

definition hex_pair :: "char \<Rightarrow> char \<Rightarrow> char option" where
  "hex_pair h l =
     (if h = CHR ''+'' then map_option char_of (hex_value l)
      else case (hex_value h, hex_value l) of
        (Some a, Some b) \<Rightarrow> Some (char_of (16 * a + b))
      | _ \<Rightarrow> None)"

text \<open>
  The loop takes the two bytes after a percent sign off the iterator before it looks at them,
  so they are gone when they are not a hexadecimal number.
\<close>

fun percent_decode_bytes :: "bytes \<Rightarrow> bytes" where
  "percent_decode_bytes [] = []"
| "percent_decode_bytes [b] = [b]"
| "percent_decode_bytes [b, h] = (if b = CHR ''%'' then [b] else b # percent_decode_bytes [h])"
| "percent_decode_bytes (b # h # l # rest) =
     (if b = CHR ''%'' then
        (case hex_pair h l of
           Some hex_byte \<Rightarrow> hex_byte # percent_decode_bytes rest
         | None \<Rightarrow> b # percent_decode_bytes rest)
      else b # percent_decode_bytes (h # l # rest))"

text \<open>
  \<open>String::from_utf8_lossy\<close>: \<open>utf8_next\<close> is one step of the decoder of the standard library, the
  number of bytes taken and whether they are a character; what is not is replaced by U+FFFD.
\<close>

definition is_cont :: "char \<Rightarrow> bool" where
  "is_cont c \<longleftrightarrow> 0x80 \<le> byte_val c \<and> byte_val c \<le> 0xBF"

definition second_ok :: "nat \<Rightarrow> char \<Rightarrow> bool" where
  "second_ok b c \<longleftrightarrow>
     (if b = 0xE0 then 0xA0 \<le> byte_val c \<and> byte_val c \<le> 0xBF
      else if b = 0xED then 0x80 \<le> byte_val c \<and> byte_val c \<le> 0x9F
      else if b = 0xF0 then 0x90 \<le> byte_val c \<and> byte_val c \<le> 0xBF
      else if b = 0xF4 then 0x80 \<le> byte_val c \<and> byte_val c \<le> 0x8F
      else is_cont c)"

definition utf8_next :: "bytes \<Rightarrow> nat \<times> bool" where
  "utf8_next s =
     (let b = byte_val (hd s); t = tl s in
      if b < 0x80 then (1, True)
      else if 0xC2 \<le> b \<and> b \<le> 0xDF then
        (if t \<noteq> [] \<and> is_cont (t ! 0) then (2, True) else (1, False))
      else if 0xE0 \<le> b \<and> b \<le> 0xEF then
        (if t \<noteq> [] \<and> second_ok b (t ! 0)
         then (if length t \<ge> 2 \<and> is_cont (t ! 1) then (3, True) else (2, False))
         else (1, False))
      else if 0xF0 \<le> b \<and> b \<le> 0xF4 then
        (if t \<noteq> [] \<and> second_ok b (t ! 0)
         then (if length t \<ge> 2 \<and> is_cont (t ! 1)
               then (if length t \<ge> 3 \<and> is_cont (t ! 2) then (4, True) else (3, False))
               else (2, False))
         else (1, False))
      else (1, False))"

definition replacement :: bytes where
  "replacement = [CHR 0xEF, CHR 0xBF, CHR 0xBD]"

lemma utf8_next_pos: "0 < fst (utf8_next s)"
  by (simp add: utf8_next_def Let_def)

lemma utf8_next_shorter: "s \<noteq> [] \<Longrightarrow> length s - fst (utf8_next s) < length s"
  using utf8_next_pos [of s] by (simp add: diff_less)

function from_utf8_lossy :: "bytes \<Rightarrow> string" where
  "from_utf8_lossy s =
     (if s = [] then []
      else (if snd (utf8_next s) then take (fst (utf8_next s)) s else replacement) @
           from_utf8_lossy (drop (fst (utf8_next s)) s))"
  by pat_completeness auto
termination
  by (relation "measure length") (auto dest: utf8_next_shorter)

declare from_utf8_lossy.simps [simp del]

definition percent_decode :: "string \<Rightarrow> string" where
  "percent_decode input = from_utf8_lossy (percent_decode_bytes input)"

text \<open>A byte sequence that is UTF-8, as every \<open>str\<close> is.\<close>

function valid_utf8 :: "bytes \<Rightarrow> bool" where
  "valid_utf8 s =
     (if s = [] then True
      else if snd (utf8_next s) then valid_utf8 (drop (fst (utf8_next s)) s) else False)"
  by pat_completeness auto
termination
  by (relation "measure length") (auto dest: utf8_next_shorter)

declare valid_utf8.simps [simp del]

section \<open>Lemmas\<close>

lemma byte_val_less [simp]: "byte_val c < 256"
  by (simp add: byte_val_def)

lemma from_utf8_lossy_valid: "valid_utf8 s \<Longrightarrow> from_utf8_lossy s = s"
proof (induction s rule: valid_utf8.induct)
  case (1 s)
  show ?case
  proof (cases "s = []")
    case True
    then show ?thesis by (simp add: from_utf8_lossy.simps)
  next
    case False
    with "1.prems" have "snd (utf8_next s)" and "valid_utf8 (drop (fst (utf8_next s)) s)"
      by (simp_all add: valid_utf8.simps [of s] split: if_splits)
    with False "1.IH" show ?thesis
      by (simp add: from_utf8_lossy.simps [of s] case_prod_unfold Let_def)
  qed
qed

lemma hex_value_upper_hex: "d < 16 \<Longrightarrow> hex_value (upper_hex d) = Some d"
  by (auto simp: hex_value_def upper_hex_def byte_val_def Let_def take_bit_nat_eq_self)

lemma upper_hex_not_plus: "d < 16 \<Longrightarrow> upper_hex d \<noteq> CHR ''+''"
  by (auto simp: upper_hex_def dest!: arg_cong [where f = "of_char :: char \<Rightarrow> nat"] simp: take_bit_nat_eq_self)

lemma hex_pair_byte: "hex_pair (upper_hex (byte_val c div 16)) (upper_hex (byte_val c mod 16)) = Some c"
proof -
  have "byte_val c div 16 < 16" using byte_val_less [of c] by (simp add: less_mult_imp_div_less)
  then show ?thesis
    by (simp add: hex_pair_def hex_value_upper_hex upper_hex_not_plus) (simp add: byte_val_def)
qed

lemma percent_decode_bytes_hex: "percent_decode_bytes (percent_hex c @ s) = c # percent_decode_bytes s"
  by (simp add: percent_hex_def hex_pair_byte)

lemma percent_decode_bytes_plain: "b \<noteq> CHR ''%'' \<Longrightarrow> percent_decode_bytes (b # s) = b # percent_decode_bytes s"
  by (cases s rule: percent_decode_bytes.cases) auto

lemma unreserved_not_percent: "unreserved c \<Longrightarrow> c \<noteq> CHR ''%''"
  by (auto simp: unreserved_def less_eq_char_def)

lemma percent_decode_encode_bytes: "percent_decode_bytes (s3_percent_encode s) = s"
  by (induction s) (auto simp: percent_decode_bytes_hex percent_decode_bytes_plain unreserved_not_percent)

section \<open>Properties\<close>

text \<open>C39. Percent decoding undoes percent encoding, for every sequence of bytes that is UTF-8, as
  every Rust string is.\<close>

theorem percent_decode_encode:
  assumes "valid_utf8 s"
  shows "percent_decode (s3_percent_encode s) = s"
  using assms by (simp add: percent_decode_def percent_decode_encode_bytes from_utf8_lossy_valid)

theorem percent_decode_encode_witness:
  "s3_percent_encode [CHR ''a'', CHR ''/'', CHR 0xC3, CHR 0xA9, CHR ''%''] = ''a%2F%C3%A9%25'' \<and>
   percent_decode (s3_percent_encode [CHR ''a'', CHR ''/'', CHR 0xC3, CHR 0xA9, CHR ''%'']) =
     [CHR ''a'', CHR ''/'', CHR 0xC3, CHR 0xA9, CHR ''%'']"
proof -
  have "valid_utf8 [CHR ''a'', CHR ''/'', CHR 0xC3, CHR 0xA9, CHR ''%'']" by code_simp
  note decoded = percent_decode_encode [OF this]
  have "s3_percent_encode [CHR ''a'', CHR ''/'', CHR 0xC3, CHR 0xA9, CHR ''%''] = ''a%2F%C3%A9%25''"
    by code_simp
  from this decoded show ?thesis by (rule conjI)
qed

end
