(* ===== verification/Proxy.thy ===== *)
theory Proxy
  imports World Utils
begin

text \<open>
  \<open>src/proxy/mod.rs\<close>: the client of the upstream S3 service.  Every request is built and signed by
  \<open>prepare_request\<close> and sent once; a response whose status is not a success is an error.  URLs,
  header values, hashes and dates are operations of libraries, parameters of the environment.
\<close>

datatype path_scheme = PathStyle | VirtualHostStyle

datatype auth_signer = Anonymous | SigV4 (sig_access_key: string) (sig_secret_key: string) (sig_region: string)

record proxy_client =
  signer :: auth_signer
  pc_path_scheme :: path_scheme
  upstream_endpoint :: string
  upstream_region :: string

definition proxy_client_new ::
  "env \<Rightarrow> string \<Rightarrow> string \<Rightarrow> string option \<Rightarrow> string option \<Rightarrow> bool \<Rightarrow> bool \<Rightarrow> proxy_client" where
  "proxy_client_new e endpoint region backend_access_key backend_secret_key backend_path_scheme backend_v4_auth =
     \<lparr>signer =
        (if \<not> backend_v4_auth then Anonymous
         else case (backend_access_key, backend_secret_key) of
           (Some ak, Some sk) \<Rightarrow> SigV4 ak sk region
         | _ \<Rightarrow> (case (env_var e ''AWS_ACCESS_KEY_ID'', env_var e ''AWS_SECRET_ACCESS_KEY'') of
             (Some ak, Some sk) \<Rightarrow> SigV4 ak sk region
           | _ \<Rightarrow> Anonymous)),
      pc_path_scheme = (if backend_path_scheme then PathStyle else VirtualHostStyle),
      upstream_endpoint = endpoint,
      upstream_region = region\<rparr>"

section \<open>Building the URL\<close>

text \<open>The text before and after the first question mark.\<close>

definition split_query :: "string \<Rightarrow> string \<times> string option" where
  "split_query s = (case find_char (CHR ''?'') s of
      Some idx \<Rightarrow> (take idx s, Some (drop (Suc idx) s))
    | None \<Rightarrow> (s, None))"

definition build_url :: "env \<Rightarrow> proxy_client \<Rightarrow> string option \<Rightarrow> string \<Rightarrow> string + url" where
  "build_url e pc bucket key_and_query =
     (case url_parse e (upstream_endpoint pc) of
        Inl err \<Rightarrow> Inl err
      | Inr endpoint \<Rightarrow>
          (let (path_part, query_part) = split_query key_and_query;
               rest = trim_start_matches (CHR ''/'') path_part;
               with_path = (case bucket of
                   Some b \<Rightarrow> (case pc_path_scheme pc of
                       VirtualHostStyle \<Rightarrow>
                         (let new_host = b @ ''.'' @ (case url_host endpoint of None \<Rightarrow> [] | Some h \<Rightarrow> h)
                          in case url_set_host e endpoint new_host of
                               Inl err \<Rightarrow> Inl err
                             | Inr u \<Rightarrow> Inr (url_set_path e u (''/'' @ rest)))
                     | PathStyle \<Rightarrow> Inr (url_set_path e endpoint (''/'' @ b @ ''/'' @ rest)))
                 | None \<Rightarrow> Inr (url_set_path e endpoint (''/'' @ rest)))
           in case with_path of
                Inl err \<Rightarrow> Inl err
              | Inr u \<Rightarrow> Inr (url_set_query e u query_part)))"

section \<open>Signing\<close>

definition hmac_sha256 :: "env \<Rightarrow> bytes \<Rightarrow> bytes \<Rightarrow> bytes" where
  "hmac_sha256 e key d = hmac_mac e key d"

definition newline :: string where
  "newline = [CHR 0x0A]"

text \<open>\<open>headers.get(name).and_then(|h| h.to_str().ok())\<close>\<close>

definition header_str :: "env \<Rightarrow> header_map \<Rightarrow> string \<Rightarrow> string option" where
  "header_str e h n = Option.bind (hm_get h n) (hv_to_str e)"

text \<open>\<open>headers.get(name).map(|v| v.to_str().unwrap_or("").trim()).unwrap_or("")\<close>\<close>

definition header_trimmed :: "env \<Rightarrow> header_map \<Rightarrow> string \<Rightarrow> string" where
  "header_trimmed e h n =
     (case hm_get h n of
        None \<Rightarrow> []
      | Some v \<Rightarrow> trim (case hv_to_str e v of None \<Rightarrow> [] | Some s \<Rightarrow> s))"

definition canonical_query :: "(string \<times> string) list \<Rightarrow> string" where
  "canonical_query params =
     join ''&'' (map (\<lambda>(k, v). s3_percent_encode k @ ''='' @ s3_percent_encode v) params)"

definition empty_payload_hash :: string where
  "empty_payload_hash = ''e3b0c44298fc1c149afbf4c8996fb92427ae41e4649b934ca495991b7852b855''"

definition prepare_request ::
  "env \<Rightarrow> proxy_client \<Rightarrow> string \<Rightarrow> string option \<Rightarrow> string \<Rightarrow> header_map \<Rightarrow> bytes option \<Rightarrow> http_request act" where
  "prepare_request e pc meth bucket key_and_query headers0 body_bytes =
     io_bind (io_lift (build_url e pc bucket key_and_query)) (\<lambda>url.
     let host = (case url_host url of None \<Rightarrow> [] | Some h \<Rightarrow> h);
         host_val = (case url_port url of Some port \<Rightarrow> host @ '':'' @ show_nat port | None \<Rightarrow> host)
     in io_bind (io_lift (hv_parse e host_val)) (\<lambda>host_hv.
     let headers1 = hm_insert ''host'' host_hv headers0
     in io_bind
       (case signer pc of
          Anonymous \<Rightarrow> io_return headers1
        | SigV4 access_key secret_key region \<Rightarrow>
            io_bind (utc_timestamp e) (\<lambda>now.
            let datetime = amz_date e now;
                date = take 8 datetime
            in io_bind (io_lift (hv_parse e datetime)) (\<lambda>datetime_hv.
            let headers2 = hm_insert ''x-amz-date'' datetime_hv headers1;
                payload_hash = (case header_str e headers2 ''x-amz-content-sha256'' of
                    Some val \<Rightarrow> val
                  | None \<Rightarrow> (case body_bytes of
                      Some body \<Rightarrow> hex_encode e (sha256 e body)
                    | None \<Rightarrow> empty_payload_hash))
            in io_bind (io_lift (hv_parse e payload_hash)) (\<lambda>payload_hv.
            let headers3 = hm_insert ''x-amz-content-sha256'' payload_hv headers2;
                canonical_uri = url_path url;
                query_params = (case url_query url of None \<Rightarrow> [] | Some q \<Rightarrow> form_parse e q);
                cquery = canonical_query (sort_key fst query_params);
                signed_headers = sort
                  ([''host'', ''x-amz-content-sha256'', ''x-amz-date''] @
                   (if hm_contains headers3 ''range'' then [''range''] else []) @
                   (if hm_contains headers3 ''x-amz-copy-source'' then [''x-amz-copy-source''] else []));
                canonical_headers = concat (map (\<lambda>n. n @ '':'' @ header_trimmed e headers3 n @ newline) signed_headers);
                signed_headers_list = join '';'' signed_headers;
                canonical_req = join newline
                  [meth, canonical_uri, cquery, canonical_headers, signed_headers_list, payload_hash];
                canonical_hash = hex_encode e (sha256 e canonical_req);
                credential_scope = date @ ''/'' @ region @ ''/s3/aws4_request'';
                string_to_sign = join newline [''AWS4-HMAC-SHA256'', datetime, credential_scope, canonical_hash];
                k_date = hmac_sha256 e (''AWS4'' @ secret_key) date;
                k_region = hmac_sha256 e k_date region;
                k_service = hmac_sha256 e k_region ''s3'';
                k_signing = hmac_sha256 e k_service ''aws4_request'';
                signature = hex_encode e (hmac_mac e k_signing string_to_sign);
                auth_header = ''AWS4-HMAC-SHA256 Credential='' @ access_key @ ''/'' @ credential_scope @
                  '', SignedHeaders='' @ signed_headers_list @ '', Signature='' @ signature
            in io_bind (io_lift (hv_parse e auth_header)) (\<lambda>auth_hv.
            io_return (hm_insert ''authorization'' auth_hv headers3))))))
       (\<lambda>headers.
         io_return \<lparr>rq_method = meth, rq_url = url, rq_headers = headers,
           rq_body = (case body_bytes of None \<Rightarrow> NoBody | Some body \<Rightarrow> FullBody body)\<rparr>)))"

section \<open>The requests\<close>

definition head_object :: "env \<Rightarrow> proxy_client \<Rightarrow> string \<Rightarrow> string \<Rightarrow> object_metadata act" where
  "head_object e pc bucket key =
     io_bind (prepare_request e pc ''HEAD'' (Some bucket) key [] None) (\<lambda>rq.
     io_bind (http_send e rq) (\<lambda>res.
     if \<not> is_success (rs_status res) then
       (if rs_status res = 404 then io_fail (Error ''NoSuchKey: Object not found'')
        else io_fail (Error (''Upstream HEAD failed with status '' @ status_text e (rs_status res))))
     else
       io_bind (utc_timestamp e) (\<lambda>now.
       io_return
         \<lparr>content_length =
            (case Option.bind (header_str e (rs_headers res) ''content-length'') parse_u64 of
               None \<Rightarrow> 0 | Some n \<Rightarrow> n),
          content_type = header_str e (rs_headers res) ''content-type'',
          etag = header_str e (rs_headers res) ''etag'',
          last_modified =
            (case Option.bind (header_str e (rs_headers res) ''last-modified'') (rfc2822 e) of
               None \<Rightarrow> now | Some t \<Rightarrow> t)\<rparr>)))"

definition get_object_range_stream ::
  "env \<Rightarrow> proxy_client \<Rightarrow> string \<Rightarrow> string \<Rightarrow> string \<Rightarrow> piece_stream act" where
  "get_object_range_stream e pc bucket key range_header =
     io_bind (io_unwrap (hv_parse e range_header)) (\<lambda>range_hv.
     io_bind (prepare_request e pc ''GET'' (Some bucket) key (hm_insert ''range'' range_hv []) None) (\<lambda>rq.
     io_bind (http_send e rq) (\<lambda>res.
     if \<not> is_success (rs_status res)
     then io_fail (Error (''Upstream GET failed with status '' @ status_text e (rs_status res)))
     else io_return (rs_body res))))"

text \<open>
  The text of a range header, \<open>format!("bytes={}-{}", a, b)\<close>, and the loop of the coordinator that
  concatenates the pieces of a response and stops at the first error.
\<close>

definition range_text :: "u64 \<Rightarrow> u64 \<Rightarrow> string" where
  "range_text a b = ''bytes='' @ show_u64 a @ ''-'' @ show_u64 b"

fun collect :: "bytes \<Rightarrow> piece_stream \<Rightarrow> string + bytes" where
  "collect buffer [] = Inr buffer"
| "collect buffer (Inl err # _) = Inl err"
| "collect buffer (Inr b # ps) = collect (buffer @ b) ps"

definition etag_or_default :: "env \<Rightarrow> http_response \<Rightarrow> string" where
  "etag_or_default e res = (case header_str e (rs_headers res) ''etag'' of None \<Rightarrow> [] | Some t \<Rightarrow> t)"

definition put_object_stream ::
  "env \<Rightarrow> proxy_client \<Rightarrow> string \<Rightarrow> string \<Rightarrow> bytes list \<Rightarrow> u64 \<Rightarrow> string option \<Rightarrow> string act" where
  "put_object_stream e pc bucket key stream len ctype =
     io_bind (io_unwrap (hv_parse e (show_u64 len))) (\<lambda>len_hv.
     let headers1 = hm_insert ''content-length'' len_hv []
     in io_bind (case ctype of
          None \<Rightarrow> io_return headers1
        | Some ct \<Rightarrow> io_bind (io_unwrap (hv_parse e ct)) (\<lambda>ct_hv. io_return (hm_insert ''content-type'' ct_hv headers1)))
       (\<lambda>headers2.
     io_bind (io_unwrap (hv_parse e ''UNSIGNED-PAYLOAD'')) (\<lambda>unsigned_hv.
     io_bind (prepare_request e pc ''PUT'' (Some bucket) key
         (hm_insert ''x-amz-content-sha256'' unsigned_hv headers2) None) (\<lambda>rq.
     io_bind (http_send e (rq\<lparr>rq_body := StreamBody stream\<rparr>)) (\<lambda>res.
     if \<not> is_success (rs_status res)
     then io_fail (Error (''Upstream upload failed with status '' @ status_text e (rs_status res) @ '': '' @ body_text e (rs_body res)))
     else io_return (etag_or_default e res))))))"

text \<open>\<open>ProxyClient::delete_object\<close>\<close>

definition upstream_delete_object :: "env \<Rightarrow> proxy_client \<Rightarrow> string \<Rightarrow> string \<Rightarrow> unit act" where
  "upstream_delete_object e pc bucket key =
     io_bind (io_lift (build_url e pc (Some bucket) key)) (\<lambda>_.
     io_bind (prepare_request e pc ''DELETE'' (Some bucket) key [] None) (\<lambda>rq.
     io_bind (http_send e rq) (\<lambda>res.
     if \<not> is_success (rs_status res)
     then io_fail (Error (''Upstream DELETE failed with status '' @ status_text e (rs_status res)))
     else io_return ())))"

text \<open>\<open>ProxyClient::copy_object\<close>\<close>

definition upstream_copy_object ::
  "env \<Rightarrow> proxy_client \<Rightarrow> string \<Rightarrow> string \<Rightarrow> string \<Rightarrow> string \<Rightarrow> string act" where
  "upstream_copy_object e pc src_bucket src_key dest_bucket dest_key =
     (let copy_source_val = ''/'' @ src_bucket @ ''/'' @ s3_percent_encode src_key
      in io_bind (io_unwrap (hv_parse e copy_source_val)) (\<lambda>source_hv.
     io_bind (prepare_request e pc ''PUT'' (Some dest_bucket) dest_key
         (hm_insert ''x-amz-copy-source'' source_hv []) None) (\<lambda>rq.
     io_bind (http_send e rq) (\<lambda>res.
     if \<not> is_success (rs_status res)
     then io_fail (Error (''Upstream CopyObject failed with status '' @ status_text e (rs_status res) @ '': '' @ body_text e (rs_body res)))
     else io_return (etag_or_default e res)))))"

section \<open>The generic proxy\<close>

definition forwarded :: "string \<Rightarrow> bool" where
  "forwarded name \<longleftrightarrow> name \<noteq> ''host'' \<and> name \<noteq> ''authorization'' \<and>
     \<not> starts_with name ''x-amz-'' \<and> name \<noteq> ''content-length''"

fun copy_headers :: "header_map \<Rightarrow> header_map \<Rightarrow> header_map" where
  "copy_headers [] out = out"
| "copy_headers ((name, val) # hs) out =
     copy_headers hs (if forwarded name then hm_insert name val out else out)"

text \<open>The bucket and the rest of a request target \<open>/bucket/key?query\<close>.\<close>

definition split_target :: "string \<Rightarrow> string option \<times> string" where
  "split_target path_and_query =
     (let (path_part, query_part) = split_query path_and_query;
          clean_path = trim_start_matches (CHR ''/'') path_part
      in case splitn2 (CHR ''/'') clean_path of
           [] \<Rightarrow> (None, [])
         | b # ps \<Rightarrow>
             if b = [] then (None, [])
             else (case ps of
                 [] \<Rightarrow> (Some b, case query_part of None \<Rightarrow> [] | Some q \<Rightarrow> ''?'' @ q)
               | k # _ \<Rightarrow> (Some b, case query_part of None \<Rightarrow> k | Some q \<Rightarrow> k @ ''?'' @ q)))"

definition proxy_request ::
  "env \<Rightarrow> proxy_client \<Rightarrow> string \<Rightarrow> string \<Rightarrow> header_map \<Rightarrow> bytes option \<Rightarrow> http_response act" where
  "proxy_request e pc meth path_and_query headers body_bytes =
     (let out_headers = copy_headers headers [];
          (bucket, key_and_query) = split_target path_and_query
      in io_bind (io_lift (method_parse e meth)) (\<lambda>m.
         io_bind (prepare_request e pc m bucket key_and_query out_headers body_bytes) (\<lambda>rq.
         http_send e rq)))"

lemma split_query_none [simp]: "CHR ''?'' \<notin> set k \<Longrightarrow> split_query k = (k, None)"
  by (drule find_char_None [THEN iffD2]) (simp only: split_query_def option.case)

section \<open>Lemmas: a prepared request\<close>

text \<open>Preparing a request reads the clock and changes nothing.\<close>

lemma prepare_request_world: "snd (prepare_request e pc meth bucket kq hs body w) = w"
  unfolding prepare_request_def Let_def
  by (auto simp: io_bind_apply io_lift_def split: sum.splits auth_signer.splits prod.splits)

text \<open>
  The request has the method, the URL of \<open>build_url\<close> and the headers it was given; only the
  host and the headers of the signature are written.
\<close>

lemma prepare_request_fields:
  assumes "prepare_request e pc meth bucket kq hs body w = (Inr rq, w')"
  shows "w' = w \<and> rq_method rq = meth \<and> build_url e pc bucket kq = Inr (rq_url rq) \<and>
    rq_body rq = (case body of None \<Rightarrow> NoBody | Some b \<Rightarrow> FullBody b) \<and>
    (\<forall>n. n \<notin> {''host'', ''x-amz-date'', ''x-amz-content-sha256'', ''authorization''} \<longrightarrow>
      hm_get (rq_headers rq) n = hm_get hs n)"
  using assms unfolding prepare_request_def Let_def
  by (auto simp: io_bind_apply io_lift_def split: sum.splits auth_signer.splits)

lemma prepare_request_error:
  assumes "prepare_request e pc meth bucket kq hs body w = (Inl f, w')"
  shows "w' = w \<and> (\<exists>m. f = Error m)"
  using assms unfolding prepare_request_def Let_def
  by (auto simp: io_bind_apply io_lift_def split: sum.splits auth_signer.splits)

text \<open>
  A header value made of printable ASCII is accepted, and reads back as the text it was made of.
\<close>

definition printable :: "string \<Rightarrow> bool" where
  "printable s \<longleftrightarrow> (\<forall>c \<in> set s. visible c \<or> c = CHR '' '')"

definition header_values_ok :: "env \<Rightarrow> bool" where
  "header_values_ok e \<longleftrightarrow> (\<forall>s. printable s \<longrightarrow> (\<exists>v. hv_parse e s = Inr v \<and> hv_to_str e v = Some s))"

lemma errors_prepare_request [simp, errors_intros]: "errors_only (prepare_request e pc meth bucket kq hs body)"
  using prepare_request_error by (intro errors_onlyI) blast

lemma errors_requests [simp, errors_intros]:
  "errors_only (head_object e pc bucket key)" "errors_only (upstream_delete_object e pc bucket key)"
  "errors_only (proxy_request e pc meth pq hs body)"
  unfolding head_object_def upstream_delete_object_def proxy_request_def Let_def
  by (intro errors_intros)+

lemma printable_show_u64 [simp]: "printable (show_u64 n)"
  using show_u64_visible [of n] by (auto simp: printable_def list_all_iff)

lemma printable_simps [simp]:
  "printable []" "printable (c # s) \<longleftrightarrow> (visible c \<or> c = CHR '' '') \<and> printable s"
  "printable (s @ t) \<longleftrightarrow> printable s \<and> printable t"
  by (auto simp: printable_def)

lemma printable_range_text: "printable (range_text a b)"
  by (simp add: range_text_def visible_def)

lemma errors_range_stream:
  assumes "header_values_ok e"
  shows "errors_only (get_object_range_stream e pc bucket key (range_text a b))"
proof -
  from assms printable_range_text [of a b] obtain v where "hv_parse e (range_text a b) = Inr v"
    by (auto simp: header_values_ok_def)
  then show ?thesis
    by (auto simp: get_object_range_stream_def intro!: errors_intros)
qed

section \<open>Lemmas: what the requests may change\<close>

text \<open>The requests append to the log and move the call counter, and nothing else.\<close>

lemma keeps_prepare_request [keeps_intros]: "keeps P (prepare_request e pc meth bucket kq hs body)"
  by (simp add: keeps_def prepare_request_world)

lemma keeps_requests:
  assumes "\<And>w s n. P w \<Longrightarrow> P (w\<lparr>sent := s, ticks := n\<rparr>)"
  shows "keeps P (head_object e pc bucket key)"
    and "keeps P (get_object_range_stream e pc bucket key rh)"
    and "keeps P (put_object_stream e pc bucket key stream len ctype)"
    and "keeps P (upstream_delete_object e pc bucket key)"
    and "keeps P (upstream_copy_object e pc bucket key dest_bucket dest_key)"
    and "keeps P (proxy_request e pc meth pq hs body)"
proof -
  note parts = keeps_intros keeps_http_send assms
  show "keeps P (head_object e pc bucket key)"
    unfolding head_object_def by (intro parts)
  show "keeps P (get_object_range_stream e pc bucket key rh)"
    unfolding get_object_range_stream_def by (intro parts)
  show "keeps P (put_object_stream e pc bucket key stream len ctype)"
    unfolding put_object_stream_def Let_def by (intro parts)
  show "keeps P (upstream_delete_object e pc bucket key)"
    unfolding upstream_delete_object_def by (intro parts)
  show "keeps P (upstream_copy_object e pc bucket key dest_bucket dest_key)"
    unfolding upstream_copy_object_def Let_def by (intro parts)
  show "keeps P (proxy_request e pc meth pq hs body)"
    unfolding proxy_request_def Let_def by (intro parts)
qed

text \<open>Two worlds that differ in the log of requests and the call counter only.\<close>

definition same_state :: "world \<Rightarrow> world \<Rightarrow> bool" where
  "same_state w w' \<longleftrightarrow> objects w' = objects w \<and> chunks w' = chunks w \<and> files w' = files w"

lemma same_state_refl [simp]: "same_state w w"
  by (simp add: same_state_def)

lemma same_state_frame [simp]:
  "same_state u (w\<lparr>ticks := n\<rparr>) = same_state u w" "same_state u (w\<lparr>sent := s\<rparr>) = same_state u w"
  by (simp_all add: same_state_def)

lemma same_state_trans: "same_state u v \<Longrightarrow> same_state v w \<Longrightarrow> same_state u w"
  by (simp add: same_state_def)

lemma keeps_same_state: "keeps (same_state w) m \<Longrightarrow> m w = (r, w') \<Longrightarrow> same_state w w'"
  by (erule keepsD) simp_all

lemma requests_same_state:
  "head_object e pc bucket key w = (r1, w') \<Longrightarrow> same_state w w'"
  "get_object_range_stream e pc bucket key rh w = (r2, w') \<Longrightarrow> same_state w w'"
  "put_object_stream e pc bucket key stream len ctype w = (r3, w') \<Longrightarrow> same_state w w'"
  "upstream_delete_object e pc bucket key w = (r4, w') \<Longrightarrow> same_state w w'"
  "upstream_copy_object e pc bucket key dest_bucket dest_key w = (r3, w') \<Longrightarrow> same_state w w'"
  by (erule keeps_same_state [rotated], rule keeps_requests, simp)+

section \<open>Lemmas: a ranged GET\<close>

text \<open>
  What S3 promises of a ranged GET: a successful answer to the request for the bytes \<open>a\<close> to \<open>b\<close>
  of an object, if its body arrives without a transport error, is those bytes of the object.
\<close>

definition honours_ranges :: "env \<Rightarrow> proxy_client \<Rightarrow> string \<Rightarrow> string \<Rightarrow> bytes \<Rightarrow> bool" where
  "honours_ranges e pc bucket key content \<longleftrightarrow>
     (\<forall>n rq rs a b hv got.
        rq_method rq = ''GET'' \<and> build_url e pc (Some bucket) key = Inr (rq_url rq) \<and>
        hv_parse e (range_text a b) = Inr hv \<and> hm_get (rq_headers rq) ''range'' = Some hv \<and>
        upstream e n rq = Inr rs \<and> is_success (rs_status rs) \<and>
        a \<le> b \<and> unat b < length content \<and> collect [] (rs_body rs) = Inr got \<longrightarrow>
        got = take (Suc (unat b) - unat a) (drop (unat a) content))"

lemma get_object_range_stream_body:
  assumes "honours_ranges e pc bucket key content"
    and "get_object_range_stream e pc bucket key (range_text a b) w = (Inr ps, w')"
    and "a \<le> b" and "unat b < length content" and "collect [] ps = Inr got"
  shows "got = take (Suc (unat b) - unat a) (drop (unat a) content)"
proof -
  from assms(2) obtain hv where hv: "hv_parse e (range_text a b) = Inr hv"
    by (cases "hv_parse e (range_text a b)") (auto simp: get_object_range_stream_def io_bind_apply)
  from assms(2) hv obtain rq w1 res where
    rq: "prepare_request e pc ''GET'' (Some bucket) key (hm_insert ''range'' hv []) None w = (Inr rq, w1)"
    and send: "http_send e rq w1 = (Inr res, w')"
    and ok: "is_success (rs_status res)" and ps: "ps = rs_body res"
    by (auto simp: get_object_range_stream_def elim!: io_bind_okE split: if_splits)
  from prepare_request_fields [OF rq] have "rq_method rq = ''GET''"
    and "build_url e pc (Some bucket) key = Inr (rq_url rq)" and "hm_get (rq_headers rq) ''range'' = Some hv"
    by auto
  moreover from send have "upstream e (ticks w1) rq = Inr res"
    by (auto simp: http_send_def split: sum.splits)
  ultimately show ?thesis using assms(1,3-5) hv ok ps unfolding honours_ranges_def by blast
qed

section \<open>What upstream promises of a HEAD\<close>

text \<open>A successful HEAD reports the length and the etag of the object.\<close>

definition reports :: "env \<Rightarrow> proxy_client \<Rightarrow> string \<Rightarrow> string \<Rightarrow> bytes \<Rightarrow> string option \<Rightarrow> bool" where
  "reports e pc bucket key content tag \<longleftrightarrow> length content < 2 ^ 64 \<and>
     (\<forall>n rq rs. rq_method rq = ''HEAD'' \<and> build_url e pc (Some bucket) key = Inr (rq_url rq) \<and>
        upstream e n rq = Inr rs \<and> is_success (rs_status rs) \<longrightarrow>
        Option.bind (header_str e (rs_headers rs) ''content-length'') parse_u64 = Some (of_nat (length content)) \<and>
        header_str e (rs_headers rs) ''etag'' = tag)"

lemma head_object_reports:
  assumes "reports e pc bucket key content tag" and "head_object e pc bucket key w = (Inr meta, w')"
  shows "unat (content_length meta) = length content" "etag meta = tag"
proof -
  from assms(2) obtain rq w1 res where
    rq: "prepare_request e pc ''HEAD'' (Some bucket) key [] None w = (Inr rq, w1)"
    and send: "http_send e rq w1 = (Inr res, w')" and ok: "is_success (rs_status res)"
    and len: "content_length meta =
      (case Option.bind (header_str e (rs_headers res) ''content-length'') parse_u64 of None \<Rightarrow> 0 | Some n \<Rightarrow> n)"
    and tag: "etag meta = header_str e (rs_headers res) ''etag''"
    by (auto simp: head_object_def utc_timestamp_def elim!: io_bind_okE split: if_splits)
  from prepare_request_fields [OF rq] have "rq_method rq = ''HEAD''"
    and "build_url e pc (Some bucket) key = Inr (rq_url rq)" by auto
  moreover from send have "upstream e (ticks w1) rq = Inr res" by (auto simp: http_send_def split: sum.splits)
  ultimately have "Option.bind (header_str e (rs_headers res) ''content-length'') parse_u64 = Some (of_nat (length content))"
    and "header_str e (rs_headers res) ''etag'' = tag" "length content < 2 ^ 64"
    using assms(1) ok unfolding reports_def by blast+
  then show "unat (content_length meta) = length content" "etag meta = tag"
    using len tag by (simp_all add: unat_of_nat_u64)
qed

end
