(* ===== verification/Coordinator.thy ===== *)
theory Coordinator
  imports Metadata Storage Proxy
begin

text \<open>
  \<open>src/cache/mod.rs\<close>: the cache coordinator, which answers reads from the chunk files and from
  upstream, writes uploads through to upstream and to the chunk files, and drops and copies the
  cached state of objects.  The map of active downloads and the task that waits on it are in
  theory \<open>Single_Flight\<close>.
\<close>

record coordinator =
  co_storage :: storage
  proxy :: proxy_client
  chunk_size :: u64

text \<open>\<open>format!("{}/{}", bucket, key)\<close>\<close>

definition object_key :: "string \<Rightarrow> string \<Rightarrow> string" where
  "object_key bucket key = bucket @ ''/'' @ key"

section \<open>Dropping and refreshing the cached state of an object\<close>

text \<open>The number of chunks of an object; dividing by a chunk size of 0 panics.\<close>

definition num_chunks :: "u64 \<Rightarrow> u64 \<Rightarrow> u64 act" where
  "num_chunks len cs =
     (if len > 0 then
        (if cs = 0 then io_fail (Panic ''attempt to divide by zero'') else io_return ((len - 1) div cs + 1))
      else io_return 0)"

definition drop_cache_for_object :: "env \<Rightarrow> coordinator \<Rightarrow> string \<Rightarrow> string \<Rightarrow> unit act" where
  "drop_cache_for_object e co bucket key =
     (let db_key = object_key bucket key
      in io_bind (get_object e db_key) (\<lambda>found.
         io_seq
           (case found of
              None \<Rightarrow> io_return ()
            | Some meta \<Rightarrow>
                io_bind (num_chunks (content_length meta) (chunk_size co)) (\<lambda>n.
                io_for (\<lambda>idx. io_seq
                    (io_ignore (delete_chunk_file e (co_storage co) db_key idx))
                    (io_ignore (delete_chunk e db_key idx)))
                  (u64_range 0 n)))
           (delete_object e db_key)))"

definition get_object_metadata :: "env \<Rightarrow> coordinator \<Rightarrow> string \<Rightarrow> string \<Rightarrow> object_metadata act" where
  "get_object_metadata e co bucket key =
     (let db_key = object_key bucket key
      in io_bind (head_object e (proxy co) bucket key) (\<lambda>upstream.
         io_bind (get_object e db_key) (\<lambda>found.
         io_seq
           (case found of
              None \<Rightarrow> io_return ()
            | Some local_meta \<Rightarrow>
                if etag local_meta \<noteq> etag upstream \<or> content_length local_meta \<noteq> content_length upstream
                then drop_cache_for_object e co bucket key else io_return ())
           (io_seq (put_object e db_key upstream) (io_return upstream)))))"

section \<open>Reading a range\<close>

text \<open>What one future of the stream reads: a chunk, an offset in it and a length.\<close>

record chunk_read =
  cr_idx :: u64
  cr_offset :: u64
  cr_length :: u64

datatype read_stream = OneEmpty | ChunkReads "chunk_read list"

definition chunk_read_of :: "u64 \<Rightarrow> u64 \<Rightarrow> u64 \<Rightarrow> u64 \<Rightarrow> u64 \<Rightarrow> chunk_read" where
  "chunk_read_of cs file_size start fin idx =
     (let chunk_start_byte = idx * cs;
          chunk_end_byte = min ((idx + 1) * cs) file_size;
          read_start = max start chunk_start_byte;
          read_end = min fin chunk_end_byte
      in \<lparr>cr_idx = idx, cr_offset = read_start - chunk_start_byte, cr_length = read_end - read_start\<rparr>)"

definition read_plan :: "u64 \<Rightarrow> u64 \<Rightarrow> u64 \<Rightarrow> u64 \<Rightarrow> chunk_read list" where
  "read_plan cs file_size start fin =
     map (chunk_read_of cs file_size start fin) (u64_range_incl (start div cs) ((fin - 1) div cs))"

definition read_range :: "env \<Rightarrow> coordinator \<Rightarrow> string \<Rightarrow> string \<Rightarrow> u64 \<Rightarrow> u64 \<Rightarrow> read_stream act" where
  "read_range e co bucket key start end0 =
     io_bind (get_object_metadata e co bucket key) (\<lambda>meta.
     let file_size = content_length meta;
         fin = min end0 file_size
     in if start \<ge> fin then io_return OneEmpty
        else if chunk_size co = 0 then io_fail (Panic ''attempt to divide by zero'')
        else io_return (ChunkReads (read_plan (chunk_size co) file_size start fin)))"

definition chunk_is_complete :: "string + chunk_metadata option \<Rightarrow> bool" where
  "chunk_is_complete r = (case r of Inr (Some chunk_meta) \<Rightarrow> status chunk_meta = Complete | _ \<Rightarrow> False)"

text \<open>Updating the access time of a cached chunk.\<close>

definition touch_chunk :: "env \<Rightarrow> string \<Rightarrow> u64 \<Rightarrow> unit act" where
  "touch_chunk e db_key idx =
     io_bind (io_try (get_chunk e db_key idx)) (\<lambda>r.
       case r of
         Inr (Some chunk_meta) \<Rightarrow>
           io_bind (now_secs e) (\<lambda>now.
           io_ignore (put_chunk e db_key idx (chunk_meta\<lparr>last_accessed_at := now\<rparr>)))
       | _ \<Rightarrow> io_return ())"

text \<open>The future of one chunk of \<open>read_range\<close>.\<close>

definition read_chunk :: "env \<Rightarrow> coordinator \<Rightarrow> string \<Rightarrow> string \<Rightarrow> chunk_read \<Rightarrow> bytes act" where
  "read_chunk e co bucket key cr =
     (let db_key = object_key bucket key; idx = cr_idx cr
      in io_bind (io_try (get_chunk e db_key idx)) (\<lambda>r.
         if chunk_is_complete r then
           io_seq (touch_chunk e db_key idx)
             (read_chunk_range e (co_storage co) db_key idx (cr_offset cr) (cr_length cr))
         else
           (let read_start = idx * chunk_size co + cr_offset cr;
                read_end = read_start + cr_length cr
            in io_bind (get_object_range_stream e (proxy co) bucket key (range_text read_start (read_end - 1)))
                 (\<lambda>stream. io_lift (collect [] stream)))))"

text \<open>
  The body of the answer: the futures run one after the other, as the client takes the pieces,
  and the connection is given up at the first error.
\<close>

fun run_reads :: "env \<Rightarrow> coordinator \<Rightarrow> string \<Rightarrow> string \<Rightarrow> chunk_read list \<Rightarrow> piece_stream act" where
  "run_reads e co bucket key [] = io_return []"
| "run_reads e co bucket key (cr # crs) =
     io_bind (io_try (read_chunk e co bucket key cr)) (\<lambda>r.
       case r of
         Inl err \<Rightarrow> io_return [Inl err]
       | Inr b \<Rightarrow> io_bind (run_reads e co bucket key crs) (\<lambda>ps. io_return (Inr b # ps)))"

definition run_stream :: "env \<Rightarrow> coordinator \<Rightarrow> string \<Rightarrow> string \<Rightarrow> read_stream \<Rightarrow> piece_stream act" where
  "run_stream e co bucket key s =
     (case s of OneEmpty \<Rightarrow> io_return [Inr []] | ChunkReads crs \<Rightarrow> run_reads e co bucket key crs)"

section \<open>Copying the cached state of an object\<close>

text \<open>
  \<open>tokio::fs::copy\<close> opens the source, truncates the destination and then copies what the source
  holds, which is nothing when the two are the same file.
\<close>

definition fs_copy :: "env \<Rightarrow> path \<Rightarrow> path \<Rightarrow> unit act" where
  "fs_copy e p q =
     io_bind (fs_open e p) (\<lambda>_.
     io_seq (fs_create e q)
      (io_bind (io_read (\<lambda>w. files w p)) (\<lambda>f.
       fs_write_all e q (case f of None \<Rightarrow> [] | Some d \<Rightarrow> d))))"

definition copy_chunk :: "env \<Rightarrow> coordinator \<Rightarrow> string \<Rightarrow> string \<Rightarrow> u64 \<Rightarrow> unit act" where
  "copy_chunk e co src_db_key dest_db_key idx =
     io_bind (get_chunk e src_db_key idx) (\<lambda>found.
     case found of
       None \<Rightarrow> io_return ()
     | Some chunk_meta \<Rightarrow>
         if status chunk_meta = Complete then
           (let src_path = chunk_path e (co_storage co) src_db_key idx;
                dest_path = chunk_path e (co_storage co) dest_db_key idx
            in io_seq
                (io_bind (path_exists e src_path) (\<lambda>ex.
                  if ex then io_seq (ensure_parent_dir e dest_path) (fs_copy e src_path dest_path)
                  else io_return ()))
                (put_chunk e dest_db_key idx chunk_meta))
         else io_return ())"

definition copy_cache_object ::
  "env \<Rightarrow> coordinator \<Rightarrow> string \<Rightarrow> string \<Rightarrow> string \<Rightarrow> string \<Rightarrow> unit act" where
  "copy_cache_object e co src_bucket src_key dest_bucket dest_key =
     (let src_db_key = object_key src_bucket src_key;
          dest_db_key = object_key dest_bucket dest_key
      in io_bind (get_object e src_db_key) (\<lambda>found.
         case found of
           None \<Rightarrow> io_return ()
         | Some src_meta \<Rightarrow>
             io_seq (put_object e dest_db_key src_meta)
              (io_bind (num_chunks (content_length src_meta) (chunk_size co)) (\<lambda>n.
               io_for (copy_chunk e co src_db_key dest_db_key) (u64_range 0 n)))))"

section \<open>Downloading a chunk\<close>

definition download_and_cache_chunk ::
  "env \<Rightarrow> coordinator \<Rightarrow> string \<Rightarrow> string \<Rightarrow> string \<Rightarrow> u64 \<Rightarrow> u64 \<Rightarrow> u64 \<Rightarrow> unit act" where
  "download_and_cache_chunk e co bucket key db_key chunk_idx start_byte end_byte =
     io_bind (get_object_range_stream e (proxy co) bucket key (range_text start_byte (end_byte - 1))) (\<lambda>stream.
     let len = end_byte - start_byte
     in io_bind (io_lift (collect [] stream)) (\<lambda>buffer.
     if length buffer \<noteq> unat len then
       io_fail (Error (''Upstream chunk size mismatch. Expected '' @ show_u64 len @ '' bytes, got '' @
         show_nat (length buffer) @ '' bytes.''))
     else
       io_seq (write_chunk e (co_storage co) db_key chunk_idx buffer)
        (io_bind (now_secs e) (\<lambda>now.
         put_chunk e db_key chunk_idx
           \<lparr>size_of = ucast len, last_accessed_at = now, status = Complete\<rparr>))))"

section \<open>Writing an object\<close>

text \<open>A loop that may not end, as an action: not returning is the outcome \<open>Diverges\<close>.\<close>

definition diverging :: "('w \<Rightarrow> ((fail + 'a) \<times> 'w) option) \<Rightarrow> ('w, 'a) io" where
  "diverging m = (\<lambda>w. case m w of None \<Rightarrow> (Inl Diverges, w) | Some r \<Rightarrow> r)"

text \<open>
  The state of the write loop: the error of the stream if there is one, the index of the
  current chunk, the bytes not yet written, the chunks written and the pieces piped upstream.
\<close>

record write_state =
  ws_error :: "string option"
  ws_idx :: u64
  ws_buffer :: bytes
  ws_written :: "(u64 \<times> u64) list"
  ws_piped :: "bytes list"

text \<open>\<open>while current_chunk_buffer.len() >= chunk_size\<close>\<close>

partial_function (option) drain_chunks ::
  "env \<Rightarrow> storage \<Rightarrow> string \<Rightarrow> u64 \<Rightarrow> write_state \<Rightarrow> world \<Rightarrow> ((fail + write_state) \<times> world) option" where
  "drain_chunks e st db_key cs ws w =
     (if unat cs \<le> length (ws_buffer ws) then
        (case write_chunk e st db_key (ws_idx ws) (take (unat cs) (ws_buffer ws)) w of
           (Inr _, w') \<Rightarrow>
             drain_chunks e st db_key cs
               (ws\<lparr>ws_buffer := drop (unat cs) (ws_buffer ws),
                   ws_written := ws_written ws @ [(ws_idx ws, cs)], ws_idx := ws_idx ws + 1\<rparr>) w'
         | (Inl f, w') \<Rightarrow>
             Some (case f of
                 Error err \<Rightarrow> Inr (ws\<lparr>ws_buffer := drop (unat cs) (ws_buffer ws), ws_error := Some err\<rparr>)
               | _ \<Rightarrow> Inl f, w'))
      else Some (Inr ws, w))"

text \<open>\<open>tx.send(..).await.is_err()\<close>: the receiver is gone when the upload has ended early.\<close>

definition pipe_send :: "env \<Rightarrow> bool act" where
  "pipe_send e = (\<lambda>w. (Inr (\<not> rx_closed e (ticks w)), w\<lparr>ticks := Suc (ticks w)\<rparr>))"

text \<open>\<open>while let Some(res) = body_stream.next().await\<close>\<close>

fun pump_body :: "env \<Rightarrow> storage \<Rightarrow> string \<Rightarrow> u64 \<Rightarrow> piece_stream \<Rightarrow> write_state \<Rightarrow> write_state act" where
  "pump_body e st db_key cs [] ws = io_return ws"
| "pump_body e st db_key cs (Inl err # _) ws = io_return (ws\<lparr>ws_error := Some err\<rparr>)"
| "pump_body e st db_key cs (Inr b # ps) ws =
     io_bind (pipe_send e) (\<lambda>sent_ok.
     if \<not> sent_ok then io_return (ws\<lparr>ws_error := Some ''Upstream upload channel closed prematurely''\<rparr>)
     else
       io_bind (diverging (drain_chunks e st db_key cs
           (ws\<lparr>ws_buffer := ws_buffer ws @ b, ws_piped := ws_piped ws @ [b]\<rparr>))) (\<lambda>ws'.
       if ws_error ws' \<noteq> None then io_return ws' else pump_body e st db_key cs ps ws'))"

text \<open>The last chunk, which may be short.\<close>

definition write_last :: "env \<Rightarrow> storage \<Rightarrow> string \<Rightarrow> write_state \<Rightarrow> write_state act" where
  "write_last e st db_key ws =
     (if ws_error ws = None \<and> ws_buffer ws \<noteq> [] then
        io_bind (io_try (write_chunk e st db_key (ws_idx ws) (ws_buffer ws))) (\<lambda>r.
          case r of
            Inl err \<Rightarrow> io_return (ws\<lparr>ws_error := Some err\<rparr>)
          | Inr _ \<Rightarrow> io_return (ws\<lparr>ws_written := ws_written ws @ [(ws_idx ws, of_nat (length (ws_buffer ws)))]\<rparr>))
      else io_return ws)"

text \<open>Awaiting a spawned task: a panic in the task is an error of the one that waits.\<close>

definition io_join :: "('w, 'a) io \<Rightarrow> ('w, 'a) io" where
  "io_join m = (\<lambda>w. case m w of (Inl (Panic p), w') \<Rightarrow> (Inl (Error p), w') | r \<Rightarrow> r)"

definition write_and_cache_object ::
  "env \<Rightarrow> coordinator \<Rightarrow> string \<Rightarrow> string \<Rightarrow> piece_stream \<Rightarrow> u64 \<Rightarrow> string option \<Rightarrow> string act" where
  "write_and_cache_object e co bucket key body_stream len ctype =
     (let db_key = object_key bucket key;
          st = co_storage co;
          upload = (\<lambda>ws. io_join (put_object_stream e (proxy co) bucket key (ws_piped ws) len ctype))
      in io_seq (io_ignore (drop_cache_for_object e co bucket key))
         (io_bind (pump_body e st db_key (chunk_size co) body_stream
             \<lparr>ws_error = None, ws_idx = 0, ws_buffer = [], ws_written = [], ws_piped = []\<rparr>) (\<lambda>ws1.
         io_bind (write_last e st db_key ws1) (\<lambda>ws.
         case ws_error ws of
           None \<Rightarrow>
             io_bind (upload ws) (\<lambda>tag.
             io_seq (io_for (\<lambda>(idx, sz). io_bind (now_secs e) (\<lambda>now.
                  put_chunk e db_key idx \<lparr>size_of = ucast sz, last_accessed_at = now, status = Complete\<rparr>))
                (ws_written ws))
             (io_bind (now_secs e) (\<lambda>now.
             io_seq (put_object e db_key
                \<lparr>content_length = len, content_type = ctype, etag = Some tag, last_modified = now\<rparr>)
             (io_return tag))))
         | Some err \<Rightarrow>
             io_seq (io_ignore (upload ws))
             (io_seq (io_for (\<lambda>idx. io_ignore (delete_chunk_file e st db_key idx)) (u64_range_incl 0 (ws_idx ws)))
             (io_fail (Error err)))))))"

end
