(* ===== verification/Read_Path.thy ===== *)
theory Read_Path
  imports Coordinator
begin

text \<open>
  What a read returns: the plan of \<open>read_range\<close> cuts the requested range at the chunk
  boundaries, each future returns its part of the object from the chunk file or from upstream,
  and the answer is the requested part of the object however much of it is cached.
\<close>

section \<open>Chunks of an object\<close>

definition chunk_slice :: "u64 \<Rightarrow> bytes \<Rightarrow> nat \<Rightarrow> bytes" where
  "chunk_slice cs content i = take (unat cs) (drop (i * unat cs) content)"

definition slice :: "nat \<Rightarrow> nat \<Rightarrow> bytes \<Rightarrow> bytes" where
  "slice a b content = drop a (take b content)"

text \<open>The boundaries of the parts a plan reads: \<open>start\<close>, the chunk boundaries in between, \<open>fin\<close>.\<close>

definition cut :: "nat \<Rightarrow> nat \<Rightarrow> nat \<Rightarrow> nat \<Rightarrow> nat" where
  "cut cs start fin i = max start (min fin (i * cs))"

lemma mono_cut: "mono (cut cs start fin)"
  unfolding mono_def cut_def by (intro allI impI max.mono min.mono mult_le_mono1 order_refl)

lemma cut_start: "m * cs \<le> start \<Longrightarrow> start \<le> fin \<Longrightarrow> cut cs start fin m = start"
  by (simp add: cut_def)

lemma cut_end: "fin \<le> m * cs \<Longrightarrow> start \<le> fin \<Longrightarrow> cut cs start fin m = fin"
  by (simp add: cut_def)

lemma length_slice: "b \<le> length content \<Longrightarrow> length (slice a b content) = b - a"
  by (simp add: slice_def)

lemma slice_chunk:
  assumes "i * unat cs \<le> a" and "b \<le> Suc i * unat cs"
  shows "take (b - a) (drop (a - i * unat cs) (chunk_slice cs content i)) = slice a b content"
proof -
  have "drop (a - i * unat cs) (chunk_slice cs content i) = take (unat cs - (a - i * unat cs)) (drop a content)"
    using assms(1) by (simp add: chunk_slice_def drop_take)
  moreover have "b - a \<le> unat cs - (a - i * unat cs) \<or> b \<le> a" using assms by auto
  ultimately show ?thesis by (auto simp: slice_def drop_take min_def)
qed

section \<open>The plan\<close>

text \<open>
  The sizes for which the index arithmetic of \<open>read_range\<close> does not overflow: the object ends at
  least one chunk before \<open>2 ^ 64\<close>.
\<close>

definition in_range :: "u64 \<Rightarrow> u64 \<Rightarrow> u64 \<Rightarrow> u64 \<Rightarrow> bool" where
  "in_range cs file_size start fin \<longleftrightarrow>
     cs \<noteq> 0 \<and> start < fin \<and> fin \<le> file_size \<and> unat file_size + unat cs \<le> 2 ^ 64"

lemma unat_mult_u64: "unat a * unat b < 2 ^ 64 \<Longrightarrow> unat (a * b :: u64) = unat a * unat b"
  by (simp add: unat_word_ariths)

lemma unat_Suc_u64: "unat a + 1 < 2 ^ 64 \<Longrightarrow> unat (a + 1 :: u64) = unat a + 1"
  by (simp add: unat_word_ariths)

text \<open>The bounds of one chunk of a plan, in natural numbers.\<close>

lemma plan_index_bounds:
  assumes "in_range cs file_size start fin"
    and "idx \<in> set (u64_range_incl (start div cs) ((fin - 1) div cs))"
  shows "unat start div unat cs \<le> unat idx" "unat idx * unat cs < unat fin"
    "unat idx * unat cs + unat cs < 2 ^ 64"
proof -
  let ?c = "unat cs"
  have c: "0 < ?c" using assms(1) by (simp add: in_range_def word_neq_0_conv [symmetric] unat_gt_0)
  have fin0: "0 < unat fin" using assms(1) by (auto simp: in_range_def word_less_nat_alt)
  then have fin: "unat (fin - 1) = unat fin - 1" by (intro unat_minus_one) auto
  from assms(2) obtain n where n: "idx = of_nat n"
    and lo: "unat start div ?c \<le> n" and hi: "n \<le> (unat fin - 1) div ?c"
    by (auto simp: u64_range_incl_def unat_div fin)
  have "n * ?c \<le> unat fin - 1" using hi c by (metis div_times_less_eq_dividend dual_order.trans mult_le_mono1)
  with fin0 have nc: "n * ?c < unat fin" by linarith
  have "n \<le> n * ?c" using c by simp
  with nc unat_u64_less [of fin] have "n < 2 ^ 64" by linarith
  then have u: "unat idx = n" unfolding n by (rule unat_of_nat_u64)
  show "unat start div ?c \<le> unat idx" "unat idx * ?c < unat fin" using lo nc u by simp_all
  show "unat idx * ?c + ?c < 2 ^ 64"
    using nc assms(1) by (simp add: u in_range_def word_le_nat_alt)
qed

lemma plan_chunk:
  assumes r: "in_range cs file_size start fin"
    and i: "idx \<in> set (u64_range_incl (start div cs) ((fin - 1) div cs))"
    and cr: "cr = chunk_read_of cs file_size start fin idx"
  defines "lo \<equiv> cut (unat cs) (unat start) (unat fin) (unat idx)"
    and "hi \<equiv> cut (unat cs) (unat start) (unat fin) (Suc (unat idx))"
  shows "cr_idx cr = idx" "unat (cr_offset cr) = lo - unat idx * unat cs" "unat (cr_length cr) = hi - lo"
    "unat idx * unat cs \<le> lo" "lo < hi" "hi \<le> Suc (unat idx) * unat cs" "hi \<le> unat fin"
proof -
  let ?c = "unat cs" and ?i = "unat idx" and ?s = "unat start" and ?f = "unat fin"
  note b = plan_index_bounds [OF r i]
  from r have c: "cs \<noteq> 0" "0 < ?c" "?s < ?f" "?f \<le> unat file_size"
    by (auto simp: in_range_def word_less_nat_alt word_le_nat_alt unat_gt_0)
  have "?i \<le> ?i * ?c" using c(2) by simp
  with b(3) c(2) have "?i + 1 < 2 ^ 64" by linarith
  then have Suc: "unat (idx + 1) = Suc ?i" by (simp add: unat_Suc_u64)
  have m1: "unat (idx * cs) = ?i * ?c" using b(3) by (intro unat_mult_u64) linarith
  have m2: "unat ((idx + 1) * cs) = Suc ?i * ?c" using b(3) Suc by (subst unat_mult_u64) simp_all
  have s: "?s < Suc ?i * ?c" using b(1) c(2) by (metis div_less_iff_less_mult less_Suc_eq_le)
  have mx: "unat (max start (idx * cs)) = max ?s (?i * ?c)"
    by (simp add: max_def word_le_nat_alt m1)
  have mn: "unat (min fin (min ((idx + 1) * cs) file_size)) = min ?f (Suc ?i * ?c)"
    using c(4) by (simp add: min_def word_le_nat_alt m2)
  have lo: "lo = max ?s (?i * ?c)" unfolding lo_def cut_def using b(2) by simp
  have hi: "hi = min ?f (Suc ?i * ?c)" unfolding hi_def cut_def using s c(3) by simp
  have lt: "lo < hi" unfolding lo hi using s c b(2) by simp
  show "cr_idx cr = idx" by (simp add: cr chunk_read_of_def Let_def)
  have "idx * cs \<le> max start (idx * cs)" by simp
  then show "unat (cr_offset cr) = lo - ?i * ?c"
    by (simp add: cr chunk_read_of_def Let_def unat_sub mx m1 lo)
  have "max start (idx * cs) \<le> min fin (min ((idx + 1) * cs) file_size)"
    unfolding word_le_nat_alt mx mn using lt lo hi by simp
  then show "unat (cr_length cr) = hi - lo"
    by (simp add: cr chunk_read_of_def Let_def unat_sub mx mn lo hi)
  show "?i * ?c \<le> lo" "lo < hi" "hi \<le> Suc ?i * ?c" "hi \<le> ?f" using lo hi lt by simp_all
qed

text \<open>Where in the object a part of a plan starts.\<close>

definition cr_pos :: "u64 \<Rightarrow> chunk_read \<Rightarrow> nat" where
  "cr_pos cs cr = unat (cr_idx cr) * unat cs + unat (cr_offset cr)"

definition part_of :: "u64 \<Rightarrow> bytes \<Rightarrow> chunk_read \<Rightarrow> bytes" where
  "part_of cs content cr = slice (cr_pos cs cr) (cr_pos cs cr + unat (cr_length cr)) content"

lemma set_read_plan:
  "cr \<in> set (read_plan cs file_size start fin) \<longleftrightarrow>
   (\<exists>idx \<in> set (u64_range_incl (start div cs) ((fin - 1) div cs)). cr = chunk_read_of cs file_size start fin idx)"
  by (auto simp: read_plan_def)

text \<open>Every part lies within one chunk of the object, and is not empty.\<close>

lemma plan_part:
  assumes "in_range cs file_size start fin" and "cr \<in> set (read_plan cs file_size start fin)"
  shows "0 < unat (cr_length cr)" "unat (cr_offset cr) + unat (cr_length cr) \<le> unat cs"
    "cr_pos cs cr + unat (cr_length cr) \<le> unat fin" "unat start \<le> cr_pos cs cr"
proof -
  from assms(2) obtain idx where i: "idx \<in> set (u64_range_incl (start div cs) ((fin - 1) div cs))"
    and cr: "cr = chunk_read_of cs file_size start fin idx" by (auto simp: set_read_plan)
  from plan_chunk [OF assms(1) i cr]
  show "0 < unat (cr_length cr)" "unat (cr_offset cr) + unat (cr_length cr) \<le> unat cs"
    "cr_pos cs cr + unat (cr_length cr) \<le> unat fin" "unat start \<le> cr_pos cs cr"
    by (auto simp: cr_pos_def cut_def)
qed

text \<open>The parts of a plan, one after the other, are the requested range.\<close>

lemma plan_concat:
  assumes "in_range cs file_size start fin"
  shows "concat (map (part_of cs content) (read_plan cs file_size start fin)) = slice (unat start) (unat fin) content"
proof -
  let ?c = "unat cs" and ?s = "unat start" and ?f = "unat fin"
  let ?m = "?s div ?c" and ?k = "(?f - 1) div ?c" and ?g = "cut (unat cs) (unat start) (unat fin)"
  have c: "0 < ?c" "?s < ?f" using assms by (auto simp: in_range_def unat_gt_0 word_less_nat_alt)
  then have fin: "unat (fin - 1) = ?f - 1" by (intro unat_minus_one) auto
  have mk: "?m \<le> ?k" using c by (simp add: div_le_mono)
  have range: "u64_range_incl (start div cs) ((fin - 1) div cs) = map of_nat [?m..<Suc ?k]"
    by (simp add: u64_range_incl_def unat_div fin)
  have part: "part_of cs content (chunk_read_of cs file_size start fin (of_nat n)) = drop (?g n) (take (?g (Suc n)) content)"
    if n: "n \<in> {?m..<Suc ?k}" for n
  proof -
    let ?idx = "of_nat n :: u64"
    have i: "?idx \<in> set (u64_range_incl (start div cs) ((fin - 1) div cs))"
      unfolding range set_map set_upt using n by (rule imageI)
    have "n \<le> ?k" using n by simp
    also have "?k \<le> ?f - 1" by simp
    finally have u: "unat ?idx = n" using unat_u64_less [of fin] by (intro unat_of_nat_u64) linarith
    from plan_chunk [OF assms i refl] show ?thesis
      by (simp add: part_of_def cr_pos_def slice_def u)
  qed
  have "concat (map (part_of cs content) (read_plan cs file_size start fin)) =
      concat (map (\<lambda>n. drop (?g n) (take (?g (Suc n)) content)) [?m..<Suc ?k])"
    unfolding read_plan_def range map_map using part by (intro arg_cong [where f = concat] map_cong) auto
  also have "\<dots> = drop (?g ?m) (take (?g (Suc ?k)) content)"
    using concat_map_take_drop [OF mono_cut, of ?c ?s ?f content ?m "Suc ?k - ?m"] mk by simp
  also have "?g ?m = ?s"
  proof -
    have "?m * ?c \<le> ?s" by (rule div_times_less_eq_dividend)
    then show ?thesis by (rule cut_start) (use c in simp)
  qed
  also have "?g (Suc ?k) = ?f"
  proof -
    have "?f - 1 < ?c + ?k * ?c" using c(1) by (rule dividend_less_div_times)
    then have "?f \<le> Suc ?k * ?c" by simp
    then show ?thesis by (rule cut_end) (use c in simp)
  qed
  finally show ?thesis by (simp add: slice_def)
qed

section \<open>Reads change nothing but access times\<close>

definition untimed :: "chunk_metadata \<Rightarrow> chunk_metadata" where
  "untimed c = c\<lparr>last_accessed_at := 0\<rparr>"

definition only_touched :: "env \<Rightarrow> world \<Rightarrow> world \<Rightarrow> bool" where
  "only_touched e w w' \<longleftrightarrow> files w' = files w \<and> objects w' = objects w \<and>
     map_option untimed \<circ> chunk_of e w' = map_option untimed \<circ> chunk_of e w"

lemma untimed_idem [simp]: "untimed (c\<lparr>last_accessed_at := t\<rparr>) = untimed c"
  by (simp add: untimed_def)

lemma touched_refl [simp]: "only_touched e w w"
  by (simp add: only_touched_def)

lemma touched_trans: "only_touched e u v \<Longrightarrow> only_touched e v w \<Longrightarrow> only_touched e u w"
  by (simp add: only_touched_def)

lemma same_state_touched: "same_state w w' \<Longrightarrow> only_touched e w w'"
  by (simp add: only_touched_def same_state_def chunk_of_def fun_eq_iff)

lemma map_option_comp_upd: "map_option f \<circ> m(x \<mapsto> v) = (map_option f \<circ> m)(x \<mapsto> f v)"
  by (simp add: fun_eq_iff)

lemma touched_upd:
  "files w' = files w \<Longrightarrow> objects w' = objects w \<Longrightarrow> chunk_of e w x = Some c \<Longrightarrow>
   chunk_of e w' = (chunk_of e w)(x \<mapsto> c\<lparr>last_accessed_at := t\<rparr>) \<Longrightarrow> only_touched e w w'"
  by (auto simp: only_touched_def fun_eq_iff)

lemma touch_chunk_spec:
  assumes "db_good e w" and "touch_chunk e k idx w = (r, w')"
  shows "r = Inr () \<and> db_good e w' \<and> only_touched e w w'"
proof (cases rule: get_chunk_cases [OF assms(1), of k idx])
  case (1 m)
  have "same_state w (w\<lparr>ticks := Suc (ticks w)\<rparr>)" by simp
  from same_state_touched [OF this] 1 assms show ?thesis
    by (auto simp: touch_chunk_def io_bind_apply io_try_apply)
next
  case 2
  let ?w1 = "w\<lparr>ticks := Suc (ticks w)\<rparr>"
  have same: "same_state w ?w1" by simp
  show ?thesis
  proof (cases "chunk_of e w (k, idx)")
    case None
    with 2 assms same_state_touched [OF same] show ?thesis
      by (auto simp: touch_chunk_def io_bind_apply io_try_apply)
  next
    case (Some c)
    let ?c = "c\<lparr>last_accessed_at := max 0 (clock e (ticks ?w1))\<rparr>"
    obtain r2 w2 where p: "put_chunk e k idx ?c ?w1 = (r2, w2)" by (cases "put_chunk e k idx ?c ?w1")
    have "db_good e ?w1" using assms(1) by simp
    note cell = put_chunk_cell [OF this p]
    have "w' = w2 \<and> r = Inr ()"
      using 2 Some assms(2) p cell
      by (auto simp: touch_chunk_def io_bind_apply io_try_apply io_ignore_def)
    moreover have "files w2 = files w \<and> objects w2 = objects w"
      using p by (cases rule: put_chunk_cases [of e k idx ?c ?w1]) auto
    moreover have "only_touched e w w2"
      using calculation(2) cell Some touched_upd [of w2 w e "(k, idx)" c] same_state_touched [OF same]
      by (auto simp: only_touched_def chunk_of_frame)
    ultimately show ?thesis using cell by blast
  qed
qed


lemma touched_db_good: "db_good e w \<Longrightarrow> same_state w w' \<Longrightarrow> db_good e w'"
  by (simp add: db_good_def same_state_def)

lemma ticks_touched: "only_touched e w (w'\<lparr>ticks := n\<rparr>) = only_touched e w w'"
  by (simp add: only_touched_def)

section \<open>The cached part of an object\<close>

text \<open>
  The cache agrees with the contents of an object: the file of a chunk of the contents that is
  marked complete, when it is there, is that chunk.
\<close>

definition coherent :: "env \<Rightarrow> coordinator \<Rightarrow> string \<Rightarrow> bytes \<Rightarrow> world \<Rightarrow> bool" where
  "coherent e co db_key content w \<longleftrightarrow>
     (\<forall>idx c d. unat idx * unat (chunk_size co) < length content \<longrightarrow>
        chunk_of e w (db_key, idx) = Some c \<longrightarrow> status c = Complete \<longrightarrow>
        file_of e (co_storage co) db_key w idx = Some d \<longrightarrow> d = chunk_slice (chunk_size co) content (unat idx))"

lemma coherent_touched:
  assumes "only_touched e w w'" and "coherent e co k content w"
  shows "coherent e co k content w'"
  unfolding coherent_def
proof (intro allI impI)
  fix idx c d
  assume i: "unat idx * unat (chunk_size co) < length content"
    and c: "chunk_of e w' (k, idx) = Some c" "status c = Complete"
    and d: "file_of e (co_storage co) k w' idx = Some d"
  from assms(1) c(1) have "map_option untimed (chunk_of e w (k, idx)) = Some (untimed c)"
    by (metis (no_types, lifting) comp_apply only_touched_def option.simps(9))
  then obtain c0 where c0: "chunk_of e w (k, idx) = Some c0" and u: "untimed c0 = untimed c" by auto
  have "status c0 = status (untimed c0)" by (simp add: untimed_def)
  also have "\<dots> = Complete" using c(2) by (simp add: u) (simp add: untimed_def)
  finally show "d = chunk_slice (chunk_size co) content (unat idx)"
    using assms i c0 d by (auto simp: coherent_def only_touched_def file_of_def)
qed

text \<open>A part that lies within its chunk and within the object.\<close>

definition part_in :: "u64 \<Rightarrow> bytes \<Rightarrow> chunk_read \<Rightarrow> bool" where
  "part_in cs content cr \<longleftrightarrow> 0 < unat (cr_length cr) \<and>
     unat (cr_offset cr) + unat (cr_length cr) \<le> unat cs \<and>
     cr_pos cs cr + unat (cr_length cr) \<le> length content \<and> length content < 2 ^ 64"

lemma take_drop_slice: "take n (drop m xs) = slice m (m + n) xs"
  by (simp add: slice_def drop_take)

lemma cached_part:
  assumes "part_in cs content cr"
  shows "take (unat (cr_length cr)) (drop (unat (cr_offset cr)) (chunk_slice cs content (unat (cr_idx cr)))) =
    part_of cs content cr"
  using slice_chunk [of "unat (cr_idx cr)" cs "cr_pos cs cr" "cr_pos cs cr + unat (cr_length cr)" content] assms
  by (simp add: part_in_def part_of_def cr_pos_def)

text \<open>The arithmetic of a cold read: the bytes asked for are those of the part.\<close>

lemma cold_range:
  assumes "part_in cs content cr"
  defines "a \<equiv> cr_idx cr * cs + cr_offset cr"
  shows "unat a = cr_pos cs cr" "unat (a + cr_length cr - 1) = cr_pos cs cr + unat (cr_length cr) - 1"
    "a \<le> a + cr_length cr - 1"
proof -
  let ?p = "cr_pos cs cr" and ?n = "unat (cr_length cr)"
  have b: "0 < ?n" "?p + ?n < 2 ^ 64" using assms(1) by (auto simp: part_in_def)
  have m: "unat (cr_idx cr) * unat cs + unat (cr_offset cr) < 2 ^ 64" using b by (simp add: cr_pos_def)
  have "unat (cr_idx cr * cs) = unat (cr_idx cr) * unat cs"
    using m by (intro unat_mult_u64) linarith
  with m show a: "unat a = ?p" by (simp add: a_def cr_pos_def unat_word_ariths)
  have s: "unat (a + cr_length cr) = ?p + ?n" using a b by (simp add: unat_word_ariths)
  then have "a + cr_length cr \<noteq> 0" using b by (metis add_gr_0 unat_0 less_irrefl)
  then show l: "unat (a + cr_length cr - 1) = ?p + ?n - 1"
    unfolding s [symmetric] by (rule unat_minus_one)
  show "a \<le> a + cr_length cr - 1" unfolding word_le_nat_alt l a using b by simp
qed

text \<open>
  One future: whatever fails, it changes access times only, and what it returns is its part of
  the object, from the chunk file or from upstream.
\<close>

lemma keeps_touched:
  assumes "P = (\<lambda>u. db_good e u \<and> only_touched e w u)"
  shows "keeps P (get_chunk e k i)" "keeps P (touch_chunk e k i)" "keeps P (read_chunk_range e st k i off len)"
    "keeps P (get_object_range_stream e pc bucket key rh)"
proof -
  have f: "P (u\<lparr>sent := s, ticks := n\<rparr>)" "P (u\<lparr>ticks := n\<rparr>)" if "P u" for u s n
    using that by (simp_all add: assms only_touched_def)
  show "keeps P (get_chunk e k i)" unfolding get_chunk_def by (intro keeps_intros keeps_attempt f)
  show "keeps P (read_chunk_range e st k i off len)" by (intro keeps_read_chunk_range f)
  show "keeps P (get_object_range_stream e pc bucket key rh)" by (intro keeps_requests f)
  show "keeps P (touch_chunk e k i)"
    by (rule keepsI) (auto simp: assms dest: touch_chunk_spec intro: touched_trans)
qed

lemma read_chunk_world:
  assumes "db_good e w" and "read_chunk e co bucket key cr w = (r, w')"
  shows "db_good e w' \<and> only_touched e w w'"
proof -
  have "keeps (\<lambda>u. db_good e u \<and> only_touched e w u) (read_chunk e co bucket key cr)"
    unfolding read_chunk_def Let_def by (intro keeps_intros keeps_touched [OF refl])
  from keepsD [OF this _ assms(2)] assms(1) show ?thesis by simp
qed

lemma errors_touch_chunk [simp, errors_intros]: "errors_only (touch_chunk e k i)"
  unfolding touch_chunk_def by (intro errors_intros)

lemma errors_read_chunk: "header_values_ok e \<Longrightarrow> errors_only (read_chunk e co bucket key cr)"
  unfolding read_chunk_def Let_def by (intro errors_intros errors_range_stream)

text \<open>What it returns is its part of the object, from the chunk file or from upstream.\<close>

lemma read_chunk_part:
  assumes "db_good e w" and "coherent e co (object_key bucket key) content w"
    and "honours_ranges e (proxy co) bucket key content"
    and "part_in (chunk_size co) content cr"
    and "read_chunk e co bucket key cr w = (Inr b, w')"
  shows "b = part_of (chunk_size co) content cr"
proof -
  let ?k = "object_key bucket key" and ?i = "cr_idx cr" and ?cs = "chunk_size co"
  from assms(5) obtain x w1 where g: "io_try (get_chunk e ?k ?i) w = (Inr x, w1)"
    and rest: "(if chunk_is_complete x then
           io_seq (touch_chunk e ?k ?i) (read_chunk_range e (co_storage co) ?k ?i (cr_offset cr) (cr_length cr))
         else
           (let read_start = ?i * ?cs + cr_offset cr; read_end = read_start + cr_length cr
            in io_bind (get_object_range_stream e (proxy co) bucket key (range_text read_start (read_end - 1)))
                 (\<lambda>stream. io_lift (collect [] stream)))) w1 = (Inr b, w')"
    by (auto simp: read_chunk_def Let_def elim: io_bind_okE)
  show ?thesis
  proof (cases "chunk_is_complete x")
    case True
    with g obtain c where c: "chunk_of e w (?k, ?i) = Some c" "status c = Complete"
      and w1: "w1 = w\<lparr>ticks := Suc (ticks w)\<rparr>"
      by (cases rule: get_chunk_cases [OF assms(1), of ?k ?i])
        (auto simp: io_try_apply chunk_is_complete_def split: option.splits)
    have g1: "db_good e w1" "only_touched e w w1" using assms(1) by (simp_all add: w1 only_touched_def)
    from rest True obtain y w2 where t: "touch_chunk e ?k ?i w1 = (y, w2)"
      and rd: "read_chunk_range e (co_storage co) ?k ?i (cr_offset cr) (cr_length cr) w2 = (Inr b, w')"
      by (auto elim: io_seq_okE)
    from touch_chunk_spec [OF g1(1) t] have "only_touched e w1 w2" by simp
    with g1(2) have "files w2 = files w" by (simp add: only_touched_def)
    then have fo: "file_of e (co_storage co) ?k w2 = file_of e (co_storage co) ?k w"
      by (simp add: file_of_def fun_eq_iff)
    from read_chunk_range_spec [OF rd] obtain d where d: "file_of e (co_storage co) ?k w ?i = Some d"
      and b: "b = take (unat (cr_length cr)) (drop (unat (cr_offset cr)) d)"
      by (auto simp: fo)
    have "unat ?i * unat ?cs < length content" using assms(4) by (simp add: part_in_def cr_pos_def)
    with assms(2) c d have "d = chunk_slice ?cs content (unat ?i)" by (auto simp: coherent_def)
    with b cached_part [OF assms(4)] show ?thesis by simp
  next
    case False
    let ?a = "?i * ?cs + cr_offset cr" and ?b = "?i * ?cs + cr_offset cr + cr_length cr - 1"
    note r = cold_range [OF assms(4)]
    from rest False obtain ps w2
      where s: "get_object_range_stream e (proxy co) bucket key (range_text ?a ?b) w1 = (Inr ps, w2)"
        and got: "collect [] ps = Inr b"
      by (cases "get_object_range_stream e (proxy co) bucket key (range_text ?a ?b) w1")
        (auto simp: Let_def io_lift_def elim!: io_bind_okE split: sum.splits)
    have "unat ?b < length content" unfolding r using assms(4) unfolding part_in_def by linarith
    from get_object_range_stream_body [OF assms(3) s r(3) this got]
    have "b = take (Suc (unat ?b) - unat ?a) (drop (unat ?a) content)" .
    with r assms(4) show ?thesis by (simp add: part_in_def part_of_def take_drop_slice)
  qed
qed

text \<open>The whole answer.\<close>

lemma run_reads_world:
  assumes "header_values_ok e" and "db_good e w" and "run_reads e co bucket key crs w = (r, w')"
  shows "db_good e w' \<and> only_touched e w w' \<and> (\<exists>ps. r = Inr ps)"
  using assms(2,3)
proof (induction crs arbitrary: w r w')
  case Nil
  then show ?case by auto
next
  case (Cons cr crs)
  obtain r1 w1 where c: "read_chunk e co bucket key cr w = (r1, w1)" by (cases "read_chunk e co bucket key cr w")
  note g = read_chunk_world [OF Cons.prems(1) c]
  show ?case
  proof (cases r1)
    case (Inl f)
    with errors_onlyD [OF errors_read_chunk [OF assms(1)]] c obtain m where "f = Error m" by blast
    with Inl c Cons.prems(2) g show ?thesis by (auto simp: io_bind_apply io_try_apply)
  next
    case (Inr b)
    obtain r2 w2 where rr: "run_reads e co bucket key crs w1 = (r2, w2)" by (cases "run_reads e co bucket key crs w1")
    from Cons.IH [OF _ rr] g Inr c rr Cons.prems(2) show ?thesis
      by (auto simp: io_bind_apply io_try_apply intro: touched_trans)
  qed
qed

lemma collect_append: "collect buf ps = (case collect [] ps of Inl e \<Rightarrow> Inl e | Inr b \<Rightarrow> Inr (buf @ b))"
proof (induction ps arbitrary: buf)
  case Nil
  then show ?case by simp
next
  case (Cons p ps)
  show ?case
  proof (cases p)
    case (Inr b)
    with Cons [of "buf @ b"] Cons [of b] show ?thesis by (simp split: sum.split)
  qed simp
qed

lemma run_reads_parts:
  assumes "db_good e w" and "coherent e co (object_key bucket key) content w"
    and "honours_ranges e (proxy co) bucket key content"
    and "\<And>cr. cr \<in> set crs \<Longrightarrow> part_in (chunk_size co) content cr"
    and "run_reads e co bucket key crs w = (Inr ps, w')" and "collect [] ps = Inr got"
  shows "got = concat (map (part_of (chunk_size co) content) crs)"
  using assms(1,2,4-)
proof (induction crs arbitrary: w ps got)
  case Nil
  then show ?case by simp
next
  case (Cons cr crs)
  obtain r1 w1 where c: "read_chunk e co bucket key cr w = (r1, w1)" by (cases "read_chunk e co bucket key cr w")
  note g = read_chunk_world [OF Cons.prems(1) c]
  with Cons.prems(2) have coh: "coherent e co (object_key bucket key) content w1"
    by (blast intro: coherent_touched)
  show ?case
  proof (cases r1)
    case (Inl f)
    with c Cons.prems(4,5) show ?thesis
      by (cases f) (auto simp: io_bind_apply io_try_apply)
  next
    case (Inr b)
    from c Inr Cons.prems(4) obtain ps' where rr: "run_reads e co bucket key crs w1 = (Inr ps', w')"
      and ps: "ps = Inr b # ps'"
      by (auto simp: io_bind_apply io_try_apply split: prod.splits sum.splits)
    from Cons.prems(5) ps collect_append [of b ps'] obtain got' where
      got': "collect [] ps' = Inr got'" "got = b @ got'" by (auto split: sum.splits)
    have "b = part_of (chunk_size co) content cr"
      using read_chunk_part [OF Cons.prems(1,2) assms(3)] Cons.prems(3) c Inr by simp
    with Cons.IH [OF _ coh _ rr got'(1)] g Cons.prems(3) got'(2) show ?thesis by simp
  qed
qed

end
