(* ===== verification/Sample_Env.thy ===== *)
theory Sample_Env
  imports Metadata Storage Proxy
begin

text \<open>
  A concrete environment: no call fails, the clock stands still, JSON is replaced by a codec
  with length prefixes, digests by padding, and the upstream is an S3 service that holds a fixed
  set of objects.  It shows that the assumptions of the properties can hold together, and the
  properties are applied to it on concrete inputs.
\<close>

section \<open>A codec for the two metadata records\<close>

definition enc_nat :: "nat \<Rightarrow> bytes" where
  "enc_nat n = replicate n (CHR ''1'') @ ''0''"

definition dec_nat :: "bytes \<Rightarrow> nat \<times> bytes" where
  "dec_nat b = (length (takeWhile (\<lambda>c. c = CHR ''1'') b), tl (dropWhile (\<lambda>c. c = CHR ''1'') b))"

definition enc_int :: "int \<Rightarrow> bytes" where
  "enc_int i = (if i < 0 then ''-'' else ''+'') @ enc_nat (nat \<bar>i\<bar>)"

definition dec_int :: "bytes \<Rightarrow> int \<times> bytes" where
  "dec_int b = (let (n, r) = dec_nat (tl b) in (if hd b = CHR ''-'' then - int n else int n, r))"

definition enc_opt :: "string option \<Rightarrow> bytes" where
  "enc_opt x = (case x of None \<Rightarrow> ''n'' | Some s \<Rightarrow> ''s'' @ enc_nat (length s) @ s)"

definition dec_opt :: "bytes \<Rightarrow> string option \<times> bytes" where
  "dec_opt b = (if hd b = CHR ''n'' then (None, tl b)
     else let (n, r) = dec_nat (tl b) in (Some (take n r), drop n r))"

lemma dec_enc_nat [simp]: "dec_nat (enc_nat n @ r) = (n, r)"
proof -
  have "takeWhile (\<lambda>c. c = CHR ''1'') (replicate n (CHR ''1'') @ CHR ''0'' # r) = replicate n (CHR ''1'')"
    by (induction n) auto
  moreover have "dropWhile (\<lambda>c. c = CHR ''1'') (replicate n (CHR ''1'') @ CHR ''0'' # r) = CHR ''0'' # r"
    by (induction n) auto
  ultimately show ?thesis by (simp add: dec_nat_def enc_nat_def)
qed

lemma dec_enc_int [simp]: "dec_int (enc_int i @ r) = (i, r)"
  by (simp add: dec_int_def enc_int_def)

lemma dec_enc_opt [simp]: "dec_opt (enc_opt x @ r) = (x, r)"
  by (cases x) (simp_all add: dec_opt_def enc_opt_def)

definition enc_object :: "object_metadata \<Rightarrow> bytes" where
  "enc_object m = enc_nat (unat (content_length m)) @ enc_opt (content_type m) @ enc_opt (etag m) @
     enc_int (last_modified m) @ []"

definition dec_object :: "bytes \<Rightarrow> object_metadata" where
  "dec_object b =
     (let (n, b) = dec_nat b; (ct, b) = dec_opt b; (et, b) = dec_opt b; (lm, b) = dec_int b
      in \<lparr>content_length = of_nat n, content_type = ct, etag = et, last_modified = lm\<rparr>)"

definition enc_chunk :: "chunk_metadata \<Rightarrow> bytes" where
  "enc_chunk c = enc_nat (unat (size_of c)) @ enc_int (last_accessed_at c) @
     (case status c of Complete \<Rightarrow> ''c'' | Downloading \<Rightarrow> ''d'')"

definition dec_chunk :: "bytes \<Rightarrow> chunk_metadata" where
  "dec_chunk b =
     (let (n, b) = dec_nat b; (la, b) = dec_int b
      in \<lparr>size_of = of_nat n, last_accessed_at = la, status = (if b = ''d'' then Downloading else Complete)\<rparr>)"

lemma dec_enc_object [simp]: "dec_object (enc_object m) = m"
  unfolding dec_object_def enc_object_def by (simp only: dec_enc_nat dec_enc_opt dec_enc_int Let_def prod.case) simp

lemma dec_enc_chunk [simp]: "dec_chunk (enc_chunk c) = c"
  by (cases "status c") (simp_all add: dec_chunk_def enc_chunk_def)

section \<open>Digests in hexadecimal\<close>

definition hex_digit :: "nat \<Rightarrow> char" where
  "hex_digit n = ''0123456789abcdef'' ! (n mod 16)"

definition hex_pad :: "bytes \<Rightarrow> string" where
  "hex_pad b = take 64 (concat (map (\<lambda>c. [hex_digit (of_char c div 16), hex_digit (of_char c)]) b) @ replicate 64 (CHR ''0''))"

lemma hex_digit_range: "hex_digit n \<in> set ''0123456789abcdef''"
proof -
  have "n mod 16 < length ''0123456789abcdef''" by simp
  then show ?thesis unfolding hex_digit_def by (rule nth_mem)
qed

lemma hex_pad_ok: "length (hex_pad b) = 64" "set (hex_pad b) \<subseteq> set ''0123456789abcdef''"
proof -
  show "length (hex_pad b) = 64" by (simp add: hex_pad_def)
  have "set (hex_pad b) \<subseteq> (\<Union>c \<in> set b. {hex_digit (of_char c div 16), hex_digit (of_char c)}) \<union> {CHR ''0''}"
    unfolding hex_pad_def by (rule subset_trans [OF set_take_subset]) auto
  then show "set (hex_pad b) \<subseteq> set ''0123456789abcdef''" using hex_digit_range by fastforce
qed

section \<open>An S3 service\<close>

text \<open>The objects by the path of their URL: the contents and the etag.\<close>

type_synonym bucket_contents = "string \<Rightarrow> (bytes \<times> string) option"

definition read_range_header :: "string \<Rightarrow> (u64 \<times> u64) option" where
  "read_range_header h =
     (case splitn2 (CHR ''-'') (drop 6 h) of
        [a, b] \<Rightarrow> Option.bind (parse_u64 a) (\<lambda>x. map_option (Pair x) (parse_u64 b))
      | _ \<Rightarrow> None)"

definition answer :: "nat \<Rightarrow> header_map \<Rightarrow> bytes \<Rightarrow> http_response" where
  "answer st hs b = \<lparr>rs_status = st, rs_headers = hs, rs_body = [Inr b]\<rparr>"

definition serve :: "bucket_contents \<Rightarrow> http_request \<Rightarrow> http_response" where
  "serve objs rq =
     (if rq_method rq = ''PUT'' then answer 200 [(''etag'', ''put'')] []
      else if rq_method rq = ''DELETE'' then answer 204 [] []
      else case objs (url_path (rq_url rq)) of
        None \<Rightarrow> answer 404 [] []
      | Some (d, tag) \<Rightarrow>
          if rq_method rq = ''HEAD'' then
            answer 200 [(''content-length'', show_u64 (of_nat (length d))), (''etag'', tag)] []
          else case Option.bind (hm_get (rq_headers rq) ''range'') read_range_header of
              None \<Rightarrow> answer 200 [] d
            | Some (a, b) \<Rightarrow> answer 206 [] (take (Suc (unat b) - unat a) (drop (unat a) d)))"

definition sample_env :: "bucket_contents \<Rightarrow> env" where
  "sample_env objs = \<lparr>
     io_fault = \<lambda>_. None, short_write = \<lambda>_. 0, clock = \<lambda>_. 0,
     upstream = \<lambda>_ rq. Inr (serve objs rq), rx_closed = \<lambda>_. False, env_var = \<lambda>_. None,
     ser_object = \<lambda>m. Inr (enc_object m), de_object = \<lambda>b. Inr (dec_object b),
     ser_chunk = \<lambda>c. Inr (enc_chunk c), de_chunk = \<lambda>b. Inr (dec_chunk b),
     sha256 = \<lambda>b. b, hmac_mac = \<lambda>k b. k @ b, hex_encode = hex_pad,
     url_parse = \<lambda>_. Inr \<lparr>url_scheme = ''http'', url_host = Some ''s3'', url_port = None, url_path = ''/'', url_query = None\<rparr>,
     url_set_host = \<lambda>u h. Inr (u\<lparr>url_host := Some h\<rparr>), url_set_path = \<lambda>u p. u\<lparr>url_path := p\<rparr>,
     url_set_query = \<lambda>u q. u\<lparr>url_query := q\<rparr>, form_parse = \<lambda>_. [],
     hv_parse = Inr, hv_to_str = Some, method_parse = Inr, status_text = show_nat, body_text = \<lambda>_. [],
     path_params = \<lambda>p. (case splitn2 (CHR ''/'') (tl p) of [b, k] \<Rightarrow> Some (Inr (b, k)) | _ \<Rightarrow> None),
     xml_ser = \<lambda>x. Inr (xml_code x), rfc2822 = \<lambda>_. None, amz_date = \<lambda>_. ''20260101T000000Z'',
     http_date = \<lambda>_. ''Thu, 01 Jan 2026 00:00:00 GMT''\<rparr>"

definition empty_world :: world where
  "empty_world = \<lparr>objects = [], chunks = [], files = \<lambda>_. None, sent = [], ticks = 0\<rparr>"

definition sample_proxy :: proxy_client where
  "sample_proxy = \<lparr>signer = Anonymous, pc_path_scheme = PathStyle, upstream_endpoint = ''http://s3'', upstream_region = ''r''\<rparr>"

lemma sample_env_sel [simp]:
  "io_fault (sample_env objs) = (\<lambda>_. None)" "clock (sample_env objs) = (\<lambda>_. 0)"
  "upstream (sample_env objs) n rq = Inr (serve objs rq)" "rx_closed (sample_env objs) n = False"
  "ser_object (sample_env objs) m = Inr (enc_object m)" "de_object (sample_env objs) b = Inr (dec_object b)"
  "ser_chunk (sample_env objs) c = Inr (enc_chunk c)" "de_chunk (sample_env objs) b = Inr (dec_chunk b)"
  "sha256 (sample_env objs) b = b" "hex_encode (sample_env objs) b = hex_pad b"
  "hv_parse (sample_env objs) s = Inr s" "hv_to_str (sample_env objs) s = Some s"
  "method_parse (sample_env objs) s = Inr s"
  by (simp_all add: sample_env_def)

lemma sample_faultless: "faultless (sample_env objs)"
  by (simp add: faultless_def)

lemma sample_hash_ok: "hash_ok (sample_env objs)"
  using hex_pad_ok by (simp add: hash_ok_def)

lemma sample_codec_ok: "codec_ok (sample_env objs)"
  by (simp add: codec_ok_def)

lemma sample_header_values: "header_values_ok (sample_env objs)"
  by (simp add: header_values_ok_def)

lemma empty_db_good: "db_good (sample_env objs) empty_world"
  by (simp add: db_good_def sample_codec_ok empty_world_def tbl_ok_def documents_ok_def chunk_keys_ok_def)

lemma empty_views [simp]:
  "object_of e empty_world k = None" "chunk_of e empty_world x = None" "files empty_world p = None"
  by (cases x) (simp_all add: empty_world_def object_of_def chunk_of_def tbl_get_def)

definition with_chunk :: "string \<Rightarrow> u64 \<Rightarrow> chunk_metadata \<Rightarrow> world \<Rightarrow> world" where
  "with_chunk k i c w = w\<lparr>chunks := tbl_insert (chunk_db_key k i) (enc_chunk c) (chunks w)\<rparr>"

lemma with_chunk_good: "db_good (sample_env objs) w \<Longrightarrow> db_good (sample_env objs) (with_chunk k i c w)"
  by (simp add: with_chunk_def)

lemmas sample_ok = sample_faultless sample_hash_ok sample_codec_ok sample_header_values empty_db_good

section \<open>The requests of the client on it\<close>

definition sample_path :: "string \<Rightarrow> string \<Rightarrow> string" where
  "sample_path b k = ''/'' @ b @ ''/'' @ trim_start_matches (CHR ''/'') k"

definition sample_url :: "string \<Rightarrow> string \<Rightarrow> url" where
  "sample_url b k = \<lparr>url_scheme = ''http'', url_host = Some ''s3'', url_port = None,
     url_path = sample_path b k, url_query = None\<rparr>"

definition sample_request :: "string \<Rightarrow> string \<Rightarrow> string \<Rightarrow> header_map \<Rightarrow> http_body \<Rightarrow> http_request" where
  "sample_request meth b k hs body = \<lparr>rq_method = meth, rq_url = sample_url b k,
     rq_headers = hm_insert ''host'' ''s3'' hs, rq_body = body\<rparr>"

text \<open>The world after a request.\<close>

definition sample_step :: "http_request \<Rightarrow> world \<Rightarrow> world" where
  "sample_step rq w = w\<lparr>sent := sent w @ [rq], ticks := Suc (ticks w)\<rparr>"

lemma sample_step_frame [simp]:
  "db_good e (sample_step rq w) = db_good e w" "object_of e (sample_step rq w) = object_of e w"
  "chunk_of e (sample_step rq w) = chunk_of e w" "files (sample_step rq w) = files w"
  by (simp_all add: sample_step_def)

lemma sample_build_url:
  "CHR ''?'' \<notin> set k \<Longrightarrow> build_url (sample_env objs) sample_proxy (Some b) k = Inr (sample_url b k)"
  by (simp add: build_url_def sample_proxy_def sample_env_def sample_url_def sample_path_def)

lemma sample_prepare:
  "CHR ''?'' \<notin> set k \<Longrightarrow> prepare_request (sample_env objs) sample_proxy meth (Some b) k hs body w =
     (Inr (sample_request meth b k hs (case body of None \<Rightarrow> NoBody | Some d \<Rightarrow> FullBody d)), w)"
  by (simp add: prepare_request_def sample_build_url io_bind_apply sample_request_def)
    (simp add: sample_url_def, simp add: sample_proxy_def io_bind_apply)

lemma sample_head:
  assumes "CHR ''?'' \<notin> set k" and "objs (sample_path b k) = Some (d, tag)"
  shows "head_object (sample_env objs) sample_proxy b k w =
    (Inr \<lparr>content_length = of_nat (length d), content_type = None, etag = Some tag, last_modified = 0\<rparr>,
     sample_step (sample_request ''HEAD'' b k [] NoBody) w)"
  using assms
  by (simp add: head_object_def sample_prepare io_bind_apply http_send_def serve_def answer_def is_success_def
      sample_request_def sample_url_def sample_step_def header_str_def hm_get_def parse_show_u64)

lemma sample_put:
  assumes "CHR ''?'' \<notin> set k"
  shows "\<exists>rq. put_object_stream (sample_env objs) sample_proxy b k ps n ct w = (Inr ''put'', sample_step rq w)"
  using assms
  by (cases ct) (simp_all add: put_object_stream_def Let_def sample_prepare io_bind_apply http_send_def serve_def
      answer_def is_success_def sample_request_def etag_or_default_def header_str_def hm_get_def, auto simp: sample_step_def)

text \<open>The service keeps the promises of S3.\<close>

lemma read_range_text: "read_range_header (range_text a b) = Some (a, b)"
proof -
  have "drop 6 (range_text a b) = show_u64 a @ CHR ''-'' # show_u64 b" by (simp add: range_text_def)
  then show ?thesis by (simp add: read_range_header_def splitn2_append show_u64_no_sep parse_show_u64)
qed

lemma sample_get:
  assumes "CHR ''?'' \<notin> set k" and "objs (sample_path b k) = Some (d, tag)"
  shows "get_object_range_stream (sample_env objs) sample_proxy b k (range_text a x) w =
    (Inr [Inr (take (Suc (unat x) - unat a) (drop (unat a) d))],
     sample_step (sample_request ''GET'' b k (hm_insert ''range'' (range_text a x) []) NoBody) w)"
  using assms
  by (simp add: get_object_range_stream_def sample_prepare io_bind_apply http_send_def serve_def answer_def
      is_success_def sample_request_def sample_url_def sample_step_def read_range_text)

lemma sample_honours_ranges:
  assumes "CHR ''?'' \<notin> set k" and "objs (sample_path b k) = Some (d, tag)"
  shows "honours_ranges (sample_env objs) sample_proxy b k d"
  unfolding honours_ranges_def
proof (intro allI impI, elim conjE)
  fix n rq rs a x hv got
  assume u: "rq_method rq = ''GET''" "build_url (sample_env objs) sample_proxy (Some b) k = Inr (rq_url rq)"
    and h: "hv_parse (sample_env objs) (range_text a x) = Inr hv" "hm_get (rq_headers rq) ''range'' = Some hv"
    and r: "upstream (sample_env objs) n rq = Inr rs" "collect [] (rs_body rs) = Inr got"
  from u(2) sample_build_url [OF assms(1)] have "rq_url rq = sample_url b k" by auto
  with assms(2) u(1) h r show "got = take (Suc (unat x) - unat a) (drop (unat a) d)"
    by (auto simp: serve_def answer_def read_range_text sample_url_def)
qed

lemma sample_reports:
  assumes "CHR ''?'' \<notin> set k" and "objs (sample_path b k) = Some (d, tag)" and "length d < 2 ^ 64"
  shows "reports (sample_env objs) sample_proxy b k d (Some tag)"
  unfolding reports_def
proof (rule conjI, rule assms(3), intro allI impI, elim conjE)
  fix n rq rs
  assume u: "rq_method rq = ''HEAD''" "build_url (sample_env objs) sample_proxy (Some b) k = Inr (rq_url rq)"
    and r: "upstream (sample_env objs) n rq = Inr rs"
  from u(2) sample_build_url [OF assms(1)] have "rq_url rq = sample_url b k" by auto
  with assms(2) u(1) r
  have hs: "rs_headers rs = [(''content-length'', show_u64 (of_nat (length d))), (''etag'', tag)]"
    by (auto simp: serve_def answer_def sample_url_def)
  then show "Option.bind (header_str (sample_env objs) (rs_headers rs) ''content-length'') parse_u64 = Some (of_nat (length d)) \<and>
      header_str (sample_env objs) (rs_headers rs) ''etag'' = Some tag"
    by (simp add: header_str_def hm_get_def parse_show_u64)
qed

section \<open>The database on it\<close>

lemma sample_get_object: "db_good (sample_env objs) w \<Longrightarrow>
   get_object (sample_env objs) k w = (Inr (object_of (sample_env objs) w k), w\<lparr>ticks := Suc (ticks w)\<rparr>)"
  using get_object_cases [of "sample_env objs" w k] sample_faultless by blast

lemma sample_get_chunk: "db_good (sample_env objs) w \<Longrightarrow>
   get_chunk (sample_env objs) k i w = (Inr (chunk_of (sample_env objs) w (k, i)), w\<lparr>ticks := Suc (ticks w)\<rparr>)"
  using get_chunk_cases [of "sample_env objs" w k i] sample_faultless by blast

lemma sample_put_object:
  "put_object (sample_env objs) k m w =
    (Inr (), w\<lparr>objects := tbl_insert k (enc_object m) (objects w), ticks := Suc (ticks w)\<rparr>)"
  by (simp add: put_object_def io_bind_apply io_seq_apply attempt_def)

definition with_object :: "string \<Rightarrow> object_metadata \<Rightarrow> world \<Rightarrow> world" where
  "with_object k m w = w\<lparr>objects := tbl_insert k (enc_object m) (objects w)\<rparr>"

definition with_file :: "storage \<Rightarrow> string \<Rightarrow> u64 \<Rightarrow> bytes \<Rightarrow> world \<Rightarrow> world" where
  "with_file st k i d w = w\<lparr>files := (files w)(chunk_path (sample_env (\<lambda>_. None)) st k i \<mapsto> d)\<rparr>"

lemma chunk_path_sample: "chunk_path (sample_env objs) = chunk_path (sample_env (\<lambda>_. None))"
  by (simp add: fun_eq_iff chunk_path_def hash_hex_def)

lemma with_good:
  "db_good (sample_env objs) w \<Longrightarrow> db_good (sample_env objs) (with_object k m w)"
  "db_good (sample_env objs) (with_file st k i d w) = db_good (sample_env objs) w"
  by (simp_all add: with_object_def with_file_def)

lemma with_views:
  "chunk_of (sample_env objs) (with_chunk k i c w) = (chunk_of (sample_env objs) w)((k, i) \<mapsto> c)"
  "chunk_of (sample_env objs) (with_object k m w) = chunk_of (sample_env objs) w"
  "chunk_of (sample_env objs) (with_file st k i d w) = chunk_of (sample_env objs) w"
  "object_of (sample_env objs) (with_chunk k i c w) = object_of (sample_env objs) w"
  "object_of (sample_env objs) (with_object k m w) = (object_of (sample_env objs) w)(k \<mapsto> m)"
  "object_of (sample_env objs) (with_file st k i d w) = object_of (sample_env objs) w"
  "file_of (sample_env objs) st k (with_chunk k' i c w) = file_of (sample_env objs) st k w"
  "file_of (sample_env objs) st k (with_object k' m w) = file_of (sample_env objs) st k w"
  "file_of (sample_env objs) st k (with_file st k i d w) = (file_of (sample_env objs) st k w)(i \<mapsto> d)"
  using sample_codec_ok sample_hash_ok [of "\<lambda>_. None"]
  by (simp_all add: with_chunk_def with_object_def with_file_def chunk_of_insert object_of_insert
      file_of_def fun_eq_iff chunk_path_inject chunk_path_sample [of objs])

text \<open>One object of seven bytes.\<close>

definition one_object :: bucket_contents where
  "one_object p = (if p = ''/b/k'' then Some (''abcdefg'', ''t1'') else None)"

lemma one_object_k: "one_object (sample_path ''b'' ''k'') = Some (''abcdefg'', ''t1'')"
  by (simp add: one_object_def sample_path_def trim_start_matches_def)

end
