(* ===== verification/Cache_State.thy ===== *)
theory Cache_State
  imports Read_Path Sample_Env
begin

text \<open>
  How the coordinator drops and refreshes what it holds of an object: a drop removes entries and
  files of that object only, whatever fails on the way, and, when nothing fails, leaves none of
  its chunks; a new etag or length upstream drops the chunks before the new metadata is stored.
\<close>

section \<open>The number of chunks\<close>

lemma num_chunks_cases:
  obtains "num_chunks len cs w = (Inl (Panic ''attempt to divide by zero''), w)" and "cs = 0" and "len > 0"
  | n where "num_chunks len cs w = (Inr n, w)" and "set (u64_range 0 n) = {i. unat i * unat cs < unat len}"
proof (cases "len > 0 \<and> cs = 0")
  case True
  with that(1) show ?thesis by (simp add: num_chunks_def)
next
  case False
  show ?thesis
  proof (cases "len > 0")
    case len: True
    with False have cs: "cs \<noteq> 0" by simp
    let ?n = "(len - 1) div cs + 1"
    have c: "0 < unat cs" using cs by (simp add: unat_gt_0)
    have m: "unat (len - 1) = unat len - 1" using len by (intro unat_minus_one) auto
    have "unat (len - 1) div unat cs + 1 < 2 ^ 64"
      using unat_u64_less [of len] len div_le_dividend [of "unat (len - 1)" "unat cs"]
      unfolding m word_less_nat_alt by (simp del: div_le_dividend)
    then have n: "unat ?n = (unat len - 1) div unat cs + 1"
      using m by (subst unat_Suc_u64) (simp_all only: unat_div)
    have "i < ?n \<longleftrightarrow> unat i * unat cs < unat len" for i
    proof -
      have "i < ?n \<longleftrightarrow> unat i \<le> (unat len - 1) div unat cs" by (simp add: word_less_nat_alt n less_Suc_eq_le)
      also have "\<dots> \<longleftrightarrow> unat i * unat cs \<le> unat len - 1" using c by (rule less_eq_div_iff_mult_less_eq)
      also have "\<dots> \<longleftrightarrow> unat i * unat cs < unat len" using len by (auto simp: word_less_nat_alt)
      finally show ?thesis .
    qed
    with that(2) [of ?n] len cs show ?thesis by (simp add: num_chunks_def set_u64_range)
  next
    case nlen: False
    then have "len = 0" by (simp add: word_gt_0)
    with that(2) [of 0] show ?thesis by (simp add: num_chunks_def set_u64_range)
  qed
qed

section \<open>What a drop may change\<close>

definition only_dropped :: "env \<Rightarrow> storage \<Rightarrow> string \<Rightarrow> world \<Rightarrow> world \<Rightarrow> bool" where
  "only_dropped e st k w w' \<longleftrightarrow> sent w' = sent w \<and>
     (\<forall>x. chunk_of e w' x = chunk_of e w x \<or> fst x = k \<and> chunk_of e w' x = None) \<and>
     (\<forall>k'. object_of e w' k' = object_of e w k' \<or> k' = k \<and> object_of e w' k' = None) \<and>
     (\<forall>p. files w' p = files w p \<or> (\<exists>i. p = chunk_path e st k i) \<and> files w' p = None)"

lemma dropped_refl [simp]: "only_dropped e st k w w"
  by (simp add: only_dropped_def)

lemma dropped_trans: "only_dropped e st k u v \<Longrightarrow> only_dropped e st k v w \<Longrightarrow> only_dropped e st k u w"
  unfolding only_dropped_def by (metis (no_types))

lemma dropped_ticks [simp]: "only_dropped e st k w (w'\<lparr>ticks := n\<rparr>) = only_dropped e st k w w'"
  by (simp add: only_dropped_def)

lemma keeps_dropped:
  assumes "P = (\<lambda>u. db_good e u \<and> only_dropped e st k w u)"
  shows "keeps P (get_object e k')" "keeps P (delete_chunk_file e st k i)" "keeps P (delete_chunk e k i)"
    "keeps P (delete_object e k)"
proof -
  show "keeps P (get_object e k')"
    unfolding get_object_def by (intro keeps_intros keeps_attempt) (simp_all add: assms)
  show "keeps P (delete_chunk_file e st k i)"
  proof
    fix u r u' assume "P u" and d: "delete_chunk_file e st k i u = (r, u')"
    then have g: "db_good e u" "only_dropped e st k w u" by (simp_all add: assms)
    have "keeps (\<lambda>v. objects v = objects u \<and> chunks v = chunks u \<and> sent v = sent u) (delete_chunk_file e st k i)"
      by (rule keeps_files) simp
    from keepsD [OF this _ d] have same: "same_db u u'" "sent u' = sent u" by (simp_all add: same_db_def)
    with delete_chunk_file_spec [OF d] have "only_dropped e st k u u'"
      by (auto simp: only_dropped_def same_db_views split: if_splits)
    with g same_db_views(1) [OF same(1), of e] show "P u'" by (auto simp: assms intro: dropped_trans)
  qed
  show "keeps P (delete_chunk e k i)"
  proof
    fix u r u' assume "P u" and d: "delete_chunk e k i u = (r, u')"
    then have g: "db_good e u" "only_dropped e st k w u" by (simp_all add: assms)
    from d have "only_dropped e st k u u' \<and> db_good e u'"
      by (cases rule: delete_chunk_cases [of e k i u]) (auto simp: only_dropped_def g table_views split: if_splits)
    with g show "P u'" by (auto simp: assms intro: dropped_trans)
  qed
  show "keeps P (delete_object e k)"
  proof
    fix u r u' assume "P u" and d: "delete_object e k u = (r, u')"
    then have g: "db_good e u" "only_dropped e st k w u" by (simp_all add: assms)
    from d have "only_dropped e st k u u' \<and> db_good e u'"
      by (cases rule: delete_object_cases [of e k u]) (auto simp: only_dropped_def g table_views split: if_splits)
    with g show "P u'" by (auto simp: assms intro: dropped_trans)
  qed
qed

lemma keeps_num_chunks [simp, keeps_intros]: "keeps P (num_chunks len cs)"
  by (simp add: num_chunks_def)

lemma drop_world:
  assumes "db_good e w" and "drop_cache_for_object e co bucket key w = (r, w')"
  shows "db_good e w' \<and> only_dropped e (co_storage co) (object_key bucket key) w w'"
proof -
  let ?P = "\<lambda>u. db_good e u \<and> only_dropped e (co_storage co) (object_key bucket key) w u"
  have "keeps ?P (drop_cache_for_object e co bucket key)"
    unfolding drop_cache_for_object_def Let_def by (intro keeps_intros keeps_dropped [OF refl])
  from keepsD [OF this _ assms(2)] assms(1) show ?thesis by simp
qed

section \<open>A drop that meets no failure\<close>

lemma keep_views:
  "keeps (\<lambda>u. db_good e u \<and> chunk_of e u = v) (delete_chunk_file e st k i)"
  "keeps (\<lambda>u. fs_good e u \<and> file_of e st k u = x) (delete_chunk e k i)"
proof -
  show "keeps (\<lambda>u. db_good e u \<and> chunk_of e u = v) (delete_chunk_file e st k i)"
    by (rule keeps_files) simp
  show "keeps (\<lambda>u. fs_good e u \<and> file_of e st k u = x) (delete_chunk e k i)"
    unfolding delete_chunk_def
    by (intro keeps_intros keeps_attempt)
      (auto simp: keeps_def fs_good_def file_of_def fun_eq_iff)
qed

lemma io_for_map: "io_for f (map g xs) = io_for (\<lambda>x. f (g x)) xs"
  by (induction xs) auto

text \<open>The body of the loop erases the entry and the file of its index.\<close>

lemma drop_loop_entries:
  assumes "db_good e w"
    and "io_for (\<lambda>idx. io_seq (io_ignore (delete_chunk_file e st k idx)) (io_ignore (delete_chunk e k idx))) idxs w = (r, w')"
  shows "r = Inr () \<and> db_good e w' \<and> (faultless e \<longrightarrow> (\<forall>i \<in> set idxs. chunk_of e w' (k, i) = None))"
proof -
  have er: "erases (db_good e) (faultless e) (chunk_of e)
      (\<lambda>x. io_seq (io_ignore (delete_chunk_file e st (fst x) (snd x))) (io_ignore (delete_chunk e (fst x) (snd x))))"
    using chunk_db.erases_del [of e]
    by (intro erases_seq_left) (auto simp: ignores_keeps case_prod_beta ignore_returns intro!: keeps_intros keep_views)
  from erases_for [OF er assms(1), of "map (Pair k) idxs"] assms(2) show ?thesis
    by (simp add: io_for_map)
qed

lemma drop_loop_files:
  assumes "fs_good e w"
    and "io_for (\<lambda>idx. io_seq (io_ignore (delete_chunk_file e st k idx)) (io_ignore (delete_chunk e k idx))) idxs w = (r, w')"
  shows "disk_calm e \<longrightarrow> (\<forall>i \<in> set idxs. file_of e st k w' i = None)"
proof -
  have er: "erases (fs_good e) (disk_calm e) (file_of e st k)
      (\<lambda>x. io_seq (io_ignore (delete_chunk_file e st k x)) (io_ignore (delete_chunk e k x)))"
    using chunk_files.erases_del [of e]
    by (intro erases_seq_right) (auto simp: ignores_keeps ignore_returns intro!: keeps_intros keep_views)
  from erases_for [OF er assms(1) assms(2)] show ?thesis by simp
qed

lemma faultless_calm: "faultless e \<Longrightarrow> disk_calm e"
  by (simp add: faultless_def disk_calm_def)

text \<open>A drop returns, and leaves no metadata, and no chunk of those the metadata counted.\<close>

lemma drop_faultless:
  assumes "faultless e" and "hash_ok e" and "db_good e w" and "chunk_size co \<noteq> 0"
    and "drop_cache_for_object e co bucket key w = (r, w')"
  defines "k \<equiv> object_key bucket key"
  shows "r = Inr () \<and> object_of e w' k = None \<and>
    (\<forall>m i. object_of e w k = Some m \<longrightarrow> unat i * unat (chunk_size co) < unat (content_length m) \<longrightarrow>
       chunk_of e w' (k, i) = None \<and> file_of e (co_storage co) k w' i = None)"
proof -
  let ?w1 = "w\<lparr>ticks := Suc (ticks w)\<rparr>"
  have get: "get_object e k w = (Inr (object_of e w k), ?w1)"
    using get_object_cases [OF assms(3)] assms(1) by blast
  let ?loop = "\<lambda>n. io_for (\<lambda>idx. io_seq (io_ignore (delete_chunk_file e (co_storage co) k idx))
      (io_ignore (delete_chunk e k idx))) (u64_range 0 n)"
  show ?thesis
  proof (cases "object_of e w k")
    case None
    with get assms(5) have d: "delete_object e k ?w1 = (r, w')"
      by (simp add: drop_cache_for_object_def Let_def k_def io_bind_apply io_seq_apply)
    from delete_object_cases [of e k ?w1] d assms(1) None show ?thesis
      by cases (auto simp: table_views)
  next
    case (Some m)
    obtain n where n: "num_chunks (content_length m) (chunk_size co) ?w1 = (Inr n, ?w1)"
      and set: "set (u64_range 0 n) = {i. unat i * unat (chunk_size co) < unat (content_length m)}"
      using num_chunks_cases [of "content_length m" "chunk_size co" ?w1] assms(4) by blast
    obtain r2 w2 where l: "?loop n ?w1 = (r2, w2)" by (cases "?loop n ?w1")
    have good: "db_good e ?w1" "fs_good e ?w1" using assms(2,3) by (simp_all add: fs_good_def)
    from drop_loop_entries [OF good(1) l] drop_loop_files [OF good(2) l] faultless_calm [OF assms(1)] assms(1) set
    have c: "r2 = Inr ()" "db_good e w2"
      and gone: "\<And>i. unat i * unat (chunk_size co) < unat (content_length m) \<Longrightarrow>
        chunk_of e w2 (k, i) = None \<and> file_of e (co_storage co) k w2 i = None"
      by auto
    from assms(5) get Some n l c(1) have d: "delete_object e k w2 = (r, w')"
      by (simp add: drop_cache_for_object_def Let_def k_def io_bind_apply io_seq_apply)
    from delete_object_cases [of e k w2] d assms(1) gone Some show ?thesis
      by cases (auto simp: table_views file_of_def)
  qed
qed

section \<open>Refreshing the metadata\<close>

text \<open>What the first part of a read may change, whatever fails.\<close>

definition only_refreshed :: "env \<Rightarrow> storage \<Rightarrow> string \<Rightarrow> world \<Rightarrow> world \<Rightarrow> bool" where
  "only_refreshed e st k w w' \<longleftrightarrow>
     (\<forall>x. chunk_of e w' x = chunk_of e w x \<or> fst x = k \<and> chunk_of e w' x = None) \<and>
     (\<forall>k'. k' \<noteq> k \<longrightarrow> object_of e w' k' = object_of e w k') \<and>
     (\<forall>p. files w' p = files w p \<or> (\<exists>i. p = chunk_path e st k i) \<and> files w' p = None)"

lemma refreshed_trans:
  "only_refreshed e st k u v \<Longrightarrow> only_refreshed e st k v w \<Longrightarrow> only_refreshed e st k u w"
  unfolding only_refreshed_def by (metis (no_types))

lemma dropped_refreshed: "only_dropped e st k w w' \<Longrightarrow> only_refreshed e st k w w'"
  by (auto simp: only_dropped_def only_refreshed_def)

lemma same_state_refreshed: "same_state w w' \<Longrightarrow> db_good e w' = db_good e w \<and> only_refreshed e st k w w'"
  by (auto simp: same_state_def only_refreshed_def db_good_def chunk_of_def object_of_def)

lemma refresh_world:
  assumes "db_good e w" and "get_object_metadata e co bucket key w = (r, w')"
  shows "db_good e w' \<and> only_refreshed e (co_storage co) (object_key bucket key) w w'"
proof -
  let ?k = "object_key bucket key" and ?st = "co_storage co"
  let ?P = "\<lambda>u. db_good e u \<and> only_refreshed e ?st ?k w u"
  have step: "keeps ?P m" if "\<And>u r u'. db_good e u \<Longrightarrow> m u = (r, u') \<Longrightarrow> db_good e u' \<and> only_refreshed e ?st ?k u u'"
    for m :: "'a act"
    by (rule keepsI) (use that in \<open>blast intro: refreshed_trans\<close>)
  have head: "keeps ?P (head_object e (proxy co) bucket key)"
    by (rule keepsI) (metis requests_same_state(1) same_state_refreshed refreshed_trans)
  have get: "keeps ?P (get_object e ?k)"
  proof
    fix u r u' assume p: "?P u" and g: "get_object e ?k u = (r, u')"
    have "keeps (same_state u) (get_object e ?k)"
      unfolding get_object_def by (intro keeps_intros keeps_attempt) simp
    from keeps_same_state [OF this g] have "same_state u u'" .
    with p show "?P u'" by (metis same_state_refreshed refreshed_trans)
  qed
  have drop: "keeps ?P (drop_cache_for_object e co bucket key)"
    by (rule keepsI) (metis drop_world dropped_refreshed refreshed_trans)
  have put: "keeps ?P (put_object e ?k m)" for m
  proof
    fix u r u' assume p: "?P u" and g: "put_object e ?k m u = (r, u')"
    have "files u' = files u \<and> chunk_of e u' = chunk_of e u"
      using put_object_cases [of e ?k m u] g by cases auto
    with put_object_cell [of e u ?k m r u'] p g have "db_good e u' \<and> only_refreshed e ?st ?k u u'"
      by (auto simp: only_refreshed_def)
    with p show "?P u'" by (blast intro: refreshed_trans)
  qed
  have "keeps ?P (get_object_metadata e co bucket key)"
    unfolding get_object_metadata_def Let_def by (intro keeps_intros head get drop put)
  from keepsD [OF this _ assms(2)] assms(1) show ?thesis by (simp add: only_refreshed_def)
qed

text \<open>The metadata that is returned is that of upstream.\<close>

lemma refresh_head:
  assumes "get_object_metadata e co bucket key w = (Inr meta, w')"
  shows "\<exists>w1. head_object e (proxy co) bucket key w = (Inr meta, w1)"
  using assms by (auto simp: get_object_metadata_def Let_def elim!: io_bind_okE io_seq_okE)

lemma refresh_faultless:
  assumes "faultless e" and "hash_ok e" and "db_good e w" and "chunk_size co \<noteq> 0"
    and "get_object_metadata e co bucket key w = (Inr meta, w')"
  defines "k \<equiv> object_key bucket key"
  shows "object_of e w' k = Some meta"
    "object_of e w k = None \<or> (\<exists>m. object_of e w k = Some m \<and> etag m = etag meta \<and> content_length m = content_length meta) \<Longrightarrow>
       chunk_of e w' = chunk_of e w \<and> files w' = files w"
    "object_of e w k = Some m \<Longrightarrow> etag m \<noteq> etag meta \<or> content_length m \<noteq> content_length meta \<Longrightarrow>
       unat i * unat (chunk_size co) < unat (content_length m) \<Longrightarrow>
       chunk_of e w' (k, i) = None \<and> file_of e (co_storage co) k w' i = None"
proof -
  from assms(5) obtain w1 found w2 x w3 where head: "head_object e (proxy co) bucket key w = (Inr meta, w1)"
    and get: "get_object e k w1 = (Inr found, w2)"
    and drop: "(case found of None \<Rightarrow> io_return ()
       | Some m \<Rightarrow> if etag m \<noteq> etag meta \<or> content_length m \<noteq> content_length meta
           then drop_cache_for_object e co bucket key else io_return ()) w2 = (Inr x, w3)"
    and put: "put_object e k meta w3 = (Inr (), w')"
    by (auto simp: get_object_metadata_def Let_def k_def elim!: io_bind_okE io_seq_okE)
  from requests_same_state(1) [OF head] have s1: "db_good e w1" "chunk_of e w1 = chunk_of e w"
    "object_of e w1 = object_of e w" "files w1 = files w"
    using assms(3) by (auto simp: same_state_def db_good_def chunk_of_def object_of_def fun_eq_iff)
  with get_object_cases [OF s1(1), of k] get assms(1)
  have f: "found = object_of e w k" and w2: "w2 = w1\<lparr>ticks := Suc (ticks w1)\<rparr>"
    by (metis Inr_inject prod.inject)+
  have g3: "db_good e w3"
    using drop w2 s1(1) drop_world [of e w2 co bucket key "Inr x" w3]
    by (auto split: option.splits if_splits)
  from put_object_cell [OF g3 put] show "object_of e w' k = Some meta" by auto
  have cf: "chunk_of e w' = chunk_of e w3 \<and> files w' = files w3"
    using put_object_cases [of e k meta w3] put by cases auto
  show "chunk_of e w' = chunk_of e w \<and> files w' = files w"
    if "object_of e w k = None \<or> (\<exists>m. object_of e w k = Some m \<and> etag m = etag meta \<and> content_length m = content_length meta)"
    using that drop f w2 s1 cf by (auto split: option.splits)
  show "chunk_of e w' (k, i) = None \<and> file_of e (co_storage co) k w' i = None"
    if m: "object_of e w k = Some m" and "etag m \<noteq> etag meta \<or> content_length m \<noteq> content_length meta"
      and i: "unat i * unat (chunk_size co) < unat (content_length m)" for m i
  proof -
    from that drop f have d: "drop_cache_for_object e co bucket key w2 = (Inr x, w3)" by auto
    have "db_good e w2" "object_of e w2 k = Some m" using w2 s1 m by simp_all
    with drop_faultless [OF assms(1,2) _ assms(4) d] i cf show ?thesis
      by (auto simp: k_def file_of_def)
  qed
qed

text \<open>When nothing fails on this side and upstream answers the HEAD, the metadata is returned.\<close>

lemma refresh_returns:
  assumes "faultless e" and "hash_ok e" and "db_good e w" and "chunk_size co \<noteq> 0"
    and "head_object e (proxy co) bucket key w = (Inr meta, w1)"
  shows "\<exists>w'. get_object_metadata e co bucket key w = (Inr meta, w')"
proof -
  let ?k = "object_key bucket key" and ?w2 = "w1\<lparr>ticks := Suc (ticks w1)\<rparr>"
  from requests_same_state(1) [OF assms(5)] assms(3) have g1: "db_good e w1"
    by (simp add: same_state_def db_good_def)
  with assms(1) have get: "get_object e ?k w1 = (Inr (object_of e w1 ?k), ?w2)"
    using get_object_cases [OF g1, of ?k] by blast
  obtain r w3 where d: "drop_cache_for_object e co bucket key ?w2 = (r, w3)"
    by (cases "drop_cache_for_object e co bucket key ?w2")
  from drop_faultless [OF assms(1,2) _ assms(4) d] g1 have "r = Inr ()" by simp
  then have "\<exists>u. (case object_of e w1 ?k of None \<Rightarrow> io_return ()
      | Some m \<Rightarrow> if etag m \<noteq> etag meta \<or> content_length m \<noteq> content_length meta
          then drop_cache_for_object e co bucket key else io_return ()) ?w2 = (Inr (), u)"
    using d by (cases "object_of e w1 ?k") auto
  then obtain u where u: "(case object_of e w1 ?k of None \<Rightarrow> io_return ()
      | Some m \<Rightarrow> if etag m \<noteq> etag meta \<or> content_length m \<noteq> content_length meta
          then drop_cache_for_object e co bucket key else io_return ()) ?w2 = (Inr (), u)" ..
  obtain u' where "put_object e ?k meta u = (Inr (), u')"
    using put_object_cases [of e ?k meta u] assms(1) by metis
  with get assms(5) u show ?thesis
    by (simp add: get_object_metadata_def Let_def io_bind_apply io_seq_apply)
qed

text \<open>Dropping and refreshing keep the cache in agreement with the contents.\<close>

lemma coherent_refreshed:
  assumes "only_refreshed e (co_storage co) k w w'" and "coherent e co k content w"
  shows "coherent e co k content w'"
  unfolding coherent_def
proof (intro allI impI)
  fix idx c d
  assume "unat idx * unat (chunk_size co) < length content" "chunk_of e w' (k, idx) = Some c" "status c = Complete" "file_of e (co_storage co) k w' idx = Some d"
  moreover from this assms(1) have "chunk_of e w (k, idx) = Some c"
    unfolding only_refreshed_def by (metis option.distinct(1))
  moreover from assms(1) calculation(4) have "file_of e (co_storage co) k w idx = Some d"
    unfolding only_refreshed_def file_of_def by (metis option.distinct(1))
  ultimately show "d = chunk_slice (chunk_size co) content (unat idx)"
    using assms(2) by (auto simp: coherent_def)
qed

section \<open>A concrete coordinator\<close>

definition sample_coordinator :: "u64 \<Rightarrow> coordinator" where
  "sample_coordinator cs = \<lparr>co_storage = \<lparr>cache_dir = [''cache'']\<rparr>, proxy = sample_proxy, chunk_size = cs\<rparr>"

lemma sample_coordinator_sel [simp]:
  "proxy (sample_coordinator cs) = sample_proxy" "chunk_size (sample_coordinator cs) = cs"
  by (simp_all add: sample_coordinator_def)

end
