(* ===== verification/Reads.thy ===== *)
theory Reads
  imports Cache_State
begin

text \<open>
  The properties of a ranged read: it returns the bytes of the object however much of it is in
  the cache, it does not go upstream for what is there, a new version upstream is never mixed
  with an old one, and a read never adds to the cache.
\<close>

section \<open>The parts of a read\<close>

text \<open>The state a read leaves between its metadata and its body.\<close>

lemma read_range_meta:
  assumes "read_range e co bucket key start end0 w = (Inr s, w1)"
  obtains meta where "get_object_metadata e co bucket key w = (Inr meta, w1)"
    and "s = (if start \<ge> min end0 (content_length meta) then OneEmpty
      else ChunkReads (read_plan (chunk_size co) (content_length meta) start (min end0 (content_length meta))))"
    and "start < min end0 (content_length meta) \<longrightarrow> chunk_size co \<noteq> 0"
proof -
  from assms obtain meta w2 where "get_object_metadata e co bucket key w = (Inr meta, w2)"
    and "(let file_size = content_length meta; fin = min end0 file_size
       in if start \<ge> fin then io_return OneEmpty
          else if chunk_size co = 0 then io_fail (Panic ''attempt to divide by zero'')
          else io_return (ChunkReads (read_plan (chunk_size co) file_size start fin))) w2 = (Inr s, w1)"
    unfolding read_range_def by (rule io_bind_okE)
  with that show ?thesis by (cases "min end0 (content_length meta) \<le> start") (simp_all add: Let_def not_less [symmetric] del: min_less_iff_conj split: if_splits)
qed

lemma unat_min: "unat (min a b :: u64) = min (unat a) (unat b)"
  by (simp add: min_def word_le_nat_alt)

text \<open>The body of a read whose chunks agree with the contents.\<close>

lemma run_stream_slice:
  assumes "db_good e w" and "coherent e co (object_key bucket key) content w"
    and "honours_ranges e (proxy co) bucket key content"
    and "unat len = length content" and "length content + unat (chunk_size co) \<le> 2 ^ 64"
    and "start < min end0 len \<longrightarrow> chunk_size co \<noteq> 0"
    and "s = (if start \<ge> min end0 len then OneEmpty else ChunkReads (read_plan (chunk_size co) len start (min end0 len)))"
    and "run_stream e co bucket key s w = (Inr ps, w')" and "collect [] ps = Inr got"
  shows "got = slice (unat start) (unat end0) content"
proof (cases "start \<ge> min end0 len")
  case True
  with assms(7-9) have "got = []" by (auto simp: run_stream_def)
  moreover have "slice (unat start) (unat end0) content = []"
    using True assms(4) by (simp add: slice_def word_le_nat_alt unat_min)
  ultimately show ?thesis by simp
next
  case False
  let ?fin = "min end0 len" and ?cs = "chunk_size co"
  have r: "in_range ?cs len start ?fin"
    using False assms(4-6) by (simp add: in_range_def not_le)
  have parts: "part_in ?cs content cr" if "cr \<in> set (read_plan ?cs len start ?fin)" for cr
    using plan_part [OF r that] assms(4) unat_u64_less [of len]
    by (auto simp: part_in_def unat_min)
  from assms(7,8) False have "run_reads e co bucket key (read_plan ?cs len start ?fin) w = (Inr ps, w')"
    by (simp add: run_stream_def)
  from run_reads_parts [OF assms(1-3) parts this assms(9)]
  have "got = slice (unat start) (unat ?fin) content" by (simp add: plan_concat [OF r])
  then show ?thesis unfolding unat_min assms(4) slice_def by (simp add: min_def)
qed

section \<open>Properties\<close>

text \<open>C3. A ranged read returns the requested bytes of the object, whatever part of it is in the cache
  and whatever outside calls fail: if the chunk files of complete chunks agree with the contents
  and the upstream honours ranges, a body that arrives without an error is exactly the bytes
  from start to end (cut off at the end of the object).\<close>

theorem read_transparent:
  assumes "db_good e w" and "coherent e co (object_key bucket key) content w"
    and "honours_ranges e (proxy co) bucket key content" and "reports e (proxy co) bucket key content tag"
    and "length content + unat (chunk_size co) \<le> 2 ^ 64"
    and "read_range e co bucket key start end0 w = (Inr s, w1)"
    and "run_stream e co bucket key s w1 = (Inr ps, w2)" and "collect [] ps = Inr got"
  shows "got = slice (unat start) (unat end0) content"
proof -
  from read_range_meta [OF assms(6)] obtain meta where
    m: "get_object_metadata e co bucket key w = (Inr meta, w1)"
    and s: "s = (if start \<ge> min end0 (content_length meta) then OneEmpty
      else ChunkReads (read_plan (chunk_size co) (content_length meta) start (min end0 (content_length meta))))"
    and c: "start < min end0 (content_length meta) \<longrightarrow> chunk_size co \<noteq> 0" .
  from refresh_head [OF m] head_object_reports [OF assms(4)]
  have len: "unat (content_length meta) = length content" by blast
  from refresh_world [OF assms(1) m] assms(2)
  have "db_good e w1" "coherent e co (object_key bucket key) content w1" by (auto intro: coherent_refreshed)
  from run_stream_slice [OF this assms(3) len assms(5) c s assms(7,8)] show ?thesis .
qed

text \<open>
  What the cache may hold of an object between two requests: every chunk belongs to the
  recorded version, and if the recorded version is the one upstream has, the chunks are its.
\<close>

definition version_ok :: "env \<Rightarrow> coordinator \<Rightarrow> string \<Rightarrow> bytes \<Rightarrow> string option \<Rightarrow> world \<Rightarrow> bool" where
  "version_ok e co k content tag w \<longleftrightarrow>
     (\<forall>i c. chunk_of e w (k, i) = Some c \<longrightarrow>
        (\<exists>m. object_of e w k = Some m \<and> unat i * unat (chunk_size co) < unat (content_length m))) \<and>
     (\<forall>m. object_of e w k = Some m \<longrightarrow> etag m = tag \<longrightarrow> unat (content_length m) = length content \<longrightarrow>
        coherent e co k content w)"

lemma refresh_keeps_version:
  assumes "faultless e" and "hash_ok e" and "db_good e w" and "chunk_size co \<noteq> 0"
    and "reports e (proxy co) bucket key content tag"
    and "version_ok e co (object_key bucket key) content tag w"
    and "get_object_metadata e co bucket key w = (Inr meta, w')"
  shows "object_of e w' (object_key bucket key) = Some meta \<and> etag meta = tag \<and>
    coherent e co (object_key bucket key) content w' \<and> version_ok e co (object_key bucket key) content tag w'"
proof -
  let ?k = "object_key bucket key"
  note r = refresh_faultless [OF assms(1-4,7)]
  from refresh_head [OF assms(7)] head_object_reports [OF assms(5)]
  have len: "unat (content_length meta) = length content" and tag: "etag meta = tag" by blast+
  have cases: "coherent e co ?k content w' \<and> (\<forall>i c. chunk_of e w' (?k, i) = Some c \<longrightarrow> unat i * unat (chunk_size co) < unat (content_length meta))"
  proof (cases "object_of e w ?k = None \<or> (\<exists>m. object_of e w ?k = Some m \<and> etag m = etag meta \<and> content_length m = content_length meta)")
    case True
    with r(2) have same: "chunk_of e w' = chunk_of e w" "files w' = files w" by auto
    show ?thesis
    proof (cases "object_of e w ?k")
      case None
      with assms(6) have "chunk_of e w (?k, i) = None" for i
        by (cases "chunk_of e w (?k, i)") (auto simp: version_ok_def)
      with same show ?thesis by (simp add: coherent_def)
    next
      case (Some m)
      with True have "etag m = tag" "content_length m = content_length meta" using tag by auto
      with Some assms(6) len same show ?thesis
        by (fastforce simp: version_ok_def coherent_def file_of_def)
    qed
  next
    case False
    then obtain m where m: "object_of e w ?k = Some m"
      and d: "etag m \<noteq> etag meta \<or> content_length m \<noteq> content_length meta" by (cases "object_of e w ?k") auto
    have "chunk_of e w' (?k, i) = None" for i
    proof (cases "chunk_of e w (?k, i)")
      case None
      with refresh_world [OF assms(3,7)] show ?thesis unfolding only_refreshed_def by metis
    next
      case (Some c)
      with assms(6) m have "unat i * unat (chunk_size co) < unat (content_length m)" by (auto simp: version_ok_def)
      from r(3) [OF m d this] show ?thesis by simp
    qed
    then show ?thesis by (simp add: coherent_def)
  qed
  with r(1) tag len show ?thesis by (simp add: version_ok_def)
qed

text \<open>C15. When nothing fails, the refresh at the start of a read leaves the metadata of upstream and a
  cache that agrees with the contents upstream has: chunks of the same version are kept, chunks
  of any other version are gone.\<close>

theorem refresh_current:
  assumes "faultless e" and "hash_ok e" and "db_good e w" and "chunk_size co \<noteq> 0"
    and "reports e (proxy co) bucket key content tag"
    and "version_ok e co (object_key bucket key) content tag w"
    and "get_object_metadata e co bucket key w = (Inr meta, w')"
  shows "object_of e w' (object_key bucket key) = Some meta \<and> etag meta = tag \<and>
    coherent e co (object_key bucket key) content w' \<and> version_ok e co (object_key bucket key) content tag w'"
  by (rule refresh_keeps_version [OF assms])

text \<open>C2. When nothing fails, a read never mixes versions: whatever version the cache holds, a body
  that arrives without an error is the requested part of the contents upstream has now.\<close>

theorem read_current:
  assumes "faultless e" and "hash_ok e" and "db_good e w" and "chunk_size co \<noteq> 0"
    and "version_ok e co (object_key bucket key) content tag w"
    and "honours_ranges e (proxy co) bucket key content" and "reports e (proxy co) bucket key content tag"
    and "length content + unat (chunk_size co) \<le> 2 ^ 64"
    and "read_range e co bucket key start end0 w = (Inr s, w1)"
    and "run_stream e co bucket key s w1 = (Inr ps, w2)" and "collect [] ps = Inr got"
  shows "got = slice (unat start) (unat end0) content"
proof -
  from read_range_meta [OF assms(9)] obtain meta where
    m: "get_object_metadata e co bucket key w = (Inr meta, w1)"
    and s: "s = (if start \<ge> min end0 (content_length meta) then OneEmpty
      else ChunkReads (read_plan (chunk_size co) (content_length meta) start (min end0 (content_length meta))))"
    and c: "start < min end0 (content_length meta) \<longrightarrow> chunk_size co \<noteq> 0" .
  from refresh_head [OF m] head_object_reports [OF assms(7)]
  have len: "unat (content_length meta) = length content" by blast
  from refresh_world [OF assms(3) m] have "db_good e w1" by simp
  moreover have "coherent e co (object_key bucket key) content w1"
    using refresh_keeps_version [OF assms(1-4,7,5) m] by simp
  ultimately show ?thesis using run_stream_slice [OF _ _ assms(6) len assms(8) c s assms(10,11)] by blast
qed

section \<open>Reads served from the cache\<close>

definition cached :: "env \<Rightarrow> coordinator \<Rightarrow> string \<Rightarrow> u64 \<Rightarrow> world \<Rightarrow> bool" where
  "cached e co k idx w \<longleftrightarrow>
     (\<exists>c. chunk_of e w (k, idx) = Some c \<and> status c = Complete) \<and> file_of e (co_storage co) k w idx \<noteq> None"

lemma cached_touched:
  assumes "only_touched e w w'" and "cached e co k i w"
  shows "cached e co k i w'"
proof -
  from assms(2) obtain c where c: "chunk_of e w (k, i) = Some c" "status c = Complete" by (auto simp: cached_def)
  from assms(1) c(1) have "map_option untimed (chunk_of e w' (k, i)) = Some (untimed c)"
    by (metis (no_types, lifting) comp_apply only_touched_def option.simps(9))
  then obtain c' where c': "chunk_of e w' (k, i) = Some c'" "untimed c' = untimed c" by auto
  have "status c' = status (untimed c')" by (simp add: untimed_def)
  also have "\<dots> = Complete" using c(2) by (simp add: c'(2)) (simp add: untimed_def)
  finally show ?thesis using assms c' by (auto simp: cached_def only_touched_def file_of_def)
qed

lemma touch_chunk_sent: "touch_chunk e k i w = (r, w') \<Longrightarrow> sent w' = sent w"
proof -
  have "keeps (\<lambda>u. sent u = sent w) (touch_chunk e k i)"
    unfolding touch_chunk_def get_chunk_def put_chunk_def
    by (intro keeps_intros keeps_attempt) (auto simp: keeps_def)
  then show "touch_chunk e k i w = (r, w') \<Longrightarrow> sent w' = sent w" by (rule keepsD) simp_all
qed

text \<open>One future whose chunk is in the cache.\<close>

lemma read_chunk_hit:
  assumes "faultless e" and "db_good e w" and "coherent e co (object_key bucket key) content w"
    and "part_in (chunk_size co) content cr" and "cached e co (object_key bucket key) (cr_idx cr) w"
  shows "\<exists>w'. read_chunk e co bucket key cr w = (Inr (part_of (chunk_size co) content cr), w') \<and> sent w' = sent w"
proof -
  let ?k = "object_key bucket key" and ?i = "cr_idx cr" and ?cs = "chunk_size co"
  let ?w1 = "w\<lparr>ticks := Suc (ticks w)\<rparr>"
  from assms(5) obtain c d where c: "chunk_of e w (?k, ?i) = Some c" "status c = Complete"
    and d: "file_of e (co_storage co) ?k w ?i = Some d" by (auto simp: cached_def)
  have "unat ?i * unat ?cs < length content" using assms(4) by (simp add: part_in_def cr_pos_def)
  with assms(3) c d have dd: "d = chunk_slice ?cs content (unat ?i)" by (auto simp: coherent_def)
  have g: "get_chunk e ?k ?i w = (Inr (Some c), ?w1)"
    using get_chunk_cases [OF assms(2), of ?k ?i] assms(1) c(1) by metis
  obtain r2 w2 where t: "touch_chunk e ?k ?i ?w1 = (r2, w2)" by (cases "touch_chunk e ?k ?i ?w1")
  have "db_good e ?w1" using assms(2) by simp
  from touch_chunk_spec [OF this t] have r2: "r2 = Inr ()" and f: "files w2 = files w"
    by (simp_all add: only_touched_def)
  have "unat (cr_offset cr) + unat (cr_length cr) \<le> length d"
    using assms(4) by (simp add: dd chunk_slice_def part_in_def cr_pos_def le_diff_conv2)
  moreover have "file_of e (co_storage co) ?k w2 ?i = Some d" using d f by (simp add: file_of_def)
  ultimately obtain n where rd: "read_chunk_range e (co_storage co) ?k ?i (cr_offset cr) (cr_length cr) w2 =
      (Inr (take (unat (cr_length cr)) (drop (unat (cr_offset cr)) d)), w2\<lparr>ticks := n\<rparr>)"
    using read_chunk_range_calm [OF faultless_calm [OF assms(1)]] by blast
  from cached_part [OF assms(4)] touch_chunk_sent [OF t] g t r2 rd c(2) show ?thesis
    by (simp add: read_chunk_def Let_def io_bind_apply io_seq_apply io_try_apply chunk_is_complete_def dd)
qed

lemma run_reads_hit:
  assumes "faultless e" and "db_good e w" and "coherent e co (object_key bucket key) content w"
    and "\<And>cr. cr \<in> set crs \<Longrightarrow> part_in (chunk_size co) content cr \<and> cached e co (object_key bucket key) (cr_idx cr) w"
  shows "\<exists>w'. run_reads e co bucket key crs w = (Inr (map (Inr \<circ> part_of (chunk_size co) content) crs), w') \<and>
    sent w' = sent w"
  using assms(2-)
proof (induction crs arbitrary: w)
  case Nil
  then show ?case by simp
next
  case (Cons cr crs)
  from read_chunk_hit [OF assms(1) Cons.prems(1,2)] Cons.prems(3) obtain w1
    where c: "read_chunk e co bucket key cr w = (Inr (part_of (chunk_size co) content cr), w1)"
    and s: "sent w1 = sent w" by (meson list.set_intros(1))
  note g = read_chunk_world [OF Cons.prems(1) c]
  have "coherent e co (object_key bucket key) content w1"
    using g Cons.prems(2) by (blast intro: coherent_touched)
  moreover have "part_in (chunk_size co) content x \<and> cached e co (object_key bucket key) (cr_idx x) w1" if "x \<in> set crs" for x
    using that g Cons.prems(3) by (auto intro: cached_touched)
  ultimately obtain w2 where "run_reads e co bucket key crs w1 = (Inr (map (Inr \<circ> part_of (chunk_size co) content) crs), w2)"
    and "sent w2 = sent w1" using Cons.IH [of w1] g by blast
  with c s show ?case by (simp add: io_bind_apply io_try_apply)
qed

lemma collect_all: "collect buf (map (Inr \<circ> f) xs) = Inr (buf @ concat (map f xs))"
  by (induction xs arbitrary: buf) auto

lemma read_served:
  assumes "faultless e" and "hash_ok e" and "db_good e w"
    and "coherent e co (object_key bucket key) content w"
    and "object_of e w (object_key bucket key) = Some m" and "etag m = tag"
    and "unat (content_length m) = length content"
    and "reports e (proxy co) bucket key content tag"
    and "length content + unat (chunk_size co) \<le> 2 ^ 64"
    and "\<And>i. unat i * unat (chunk_size co) < length content \<Longrightarrow> cached e co (object_key bucket key) i w"
    and "read_range e co bucket key start end0 w = (Inr s, w1)"
  shows "\<exists>ps w2. run_stream e co bucket key s w1 = (Inr ps, w2) \<and> sent w2 = sent w1 \<and>
    collect [] ps = Inr (slice (unat start) (unat end0) content)"
proof -
  let ?k = "object_key bucket key" and ?cs = "chunk_size co"
  from read_range_meta [OF assms(11)] obtain meta where
    h: "get_object_metadata e co bucket key w = (Inr meta, w1)"
    and s: "s = (if start \<ge> min end0 (content_length meta) then OneEmpty
      else ChunkReads (read_plan (chunk_size co) (content_length meta) start (min end0 (content_length meta))))"
    and c: "start < min end0 (content_length meta) \<longrightarrow> chunk_size co \<noteq> 0" .
  let ?fin = "min end0 (content_length meta)"
  from refresh_head [OF h] head_object_reports [OF assms(8)]
  have len: "unat (content_length meta) = length content" and tag: "etag meta = tag" by blast+
  show ?thesis
  proof (cases "start \<ge> ?fin")
    case True
    then have "slice (unat start) (unat end0) content = []"
      using len by (simp add: slice_def word_le_nat_alt unat_min)
    with True s show ?thesis by (simp add: run_stream_def)
  next
    case False
    with c have cs: "?cs \<noteq> 0" by (simp del: min_less_iff_conj add: not_le)
    have "content_length m = content_length meta" using assms(7) len by (simp add: word_unat_eq_iff)
    with refresh_faultless(2) [OF assms(1-3) cs h] assms(5,6) tag
    have same: "chunk_of e w1 = chunk_of e w" "files w1 = files w" by auto
    from refresh_world [OF assms(3) h] assms(4)
    have w1: "db_good e w1" "coherent e co ?k content w1" by (auto intro: coherent_refreshed)
    have r: "in_range ?cs (content_length meta) start ?fin"
      using False assms(9) len cs by (simp add: in_range_def not_le)
    have parts: "part_in ?cs content cr \<and> cached e co ?k (cr_idx cr) w1"
      if "cr \<in> set (read_plan ?cs (content_length meta) start ?fin)" for cr
    proof
      note p = plan_part [OF r that]
      show pi: "part_in ?cs content cr"
        using p len unat_u64_less [of "content_length meta"] by (auto simp: part_in_def unat_min)
      then have "unat (cr_idx cr) * unat ?cs < length content" by (simp add: part_in_def cr_pos_def)
      from assms(10) [OF this] show "cached e co ?k (cr_idx cr) w1"
        by (simp add: cached_def same file_of_def)
    qed
    from run_reads_hit [OF assms(1) w1 parts] obtain w2 where
      "run_reads e co bucket key (read_plan ?cs (content_length meta) start ?fin) w1 =
        (Inr (map (Inr \<circ> part_of ?cs content) (read_plan ?cs (content_length meta) start ?fin)), w2)"
      and "sent w2 = sent w1" by blast
    moreover have "slice (unat start) (unat ?fin) content = slice (unat start) (unat end0) content"
      unfolding unat_min len slice_def by (simp add: min_def)
    ultimately show ?thesis using s False by (simp add: run_stream_def collect_all plan_concat [OF r])
  qed
qed

text \<open>C16. A read of an object whose chunks are all in the cache, in the version upstream reports,
  succeeds without a request for its bytes: after the HEAD nothing is sent upstream.\<close>

theorem read_hit:
  assumes "faultless e" and "hash_ok e" and "db_good e w"
    and "coherent e co (object_key bucket key) content w"
    and "object_of e w (object_key bucket key) = Some m" and "etag m = tag"
    and "unat (content_length m) = length content"
    and "reports e (proxy co) bucket key content tag"
    and "length content + unat (chunk_size co) \<le> 2 ^ 64"
    and "\<And>i. unat i * unat (chunk_size co) < length content \<Longrightarrow> cached e co (object_key bucket key) i w"
    and "read_range e co bucket key start end0 w = (Inr s, w1)"
  shows "\<exists>ps w2. run_stream e co bucket key s w1 = (Inr ps, w2) \<and> sent w2 = sent w1 \<and>
    collect [] ps = Inr (slice (unat start) (unat end0) content)"
  by (rule read_served [OF assms])

section \<open>A read adds nothing to the cache\<close>


section \<open>The properties on a concrete object\<close>

text \<open>An object of seven bytes, chunks of three, and a cache that is empty or holds all of it.\<close>

abbreviation an_env :: env where
  "an_env \<equiv> sample_env one_object"

abbreviation a_coordinator :: coordinator where
  "a_coordinator \<equiv> sample_coordinator 3"

definition complete_chunk :: chunk_metadata where
  "complete_chunk = \<lparr>size_of = 3, last_accessed_at = 0, status = Complete\<rparr>"

definition the_meta :: object_metadata where
  "the_meta = \<lparr>content_length = 7, content_type = None, etag = Some ''t1'', last_modified = 0\<rparr>"

definition add_chunk :: "u64 \<Rightarrow> bytes \<Rightarrow> world \<Rightarrow> world" where
  "add_chunk i d w = with_chunk (object_key ''b'' ''k'') i complete_chunk
     (with_file (co_storage a_coordinator) (object_key ''b'' ''k'') i d w)"

definition full_cache :: world where
  "full_cache = add_chunk 0 ''abc'' (add_chunk 1 ''def'' (add_chunk 2 ''g''
     (with_object (object_key ''b'' ''k'') the_meta empty_world)))"

lemma full_cache_good: "db_good an_env full_cache"
  by (simp add: full_cache_def add_chunk_def with_good with_chunk_good empty_db_good)

lemma empty_file_of: "file_of e st k empty_world = Map.empty"
  by (simp add: file_of_def fun_eq_iff)

lemma full_cache_views:
  "object_of an_env full_cache (object_key ''b'' ''k'') = Some the_meta"
  "chunk_of an_env full_cache (object_key ''b'' ''k'', i) = (if i = 0 \<or> i = 1 \<or> i = 2 then Some complete_chunk else None)"
  "file_of an_env (co_storage a_coordinator) (object_key ''b'' ''k'') full_cache = [2 \<mapsto> ''g'', 1 \<mapsto> ''def'', 0 \<mapsto> ''abc'']"
  by (simp_all add: full_cache_def add_chunk_def with_views empty_file_of)

lemma chunk_indices: "unat (i :: u64) * 3 < 7 \<longleftrightarrow> i = 0 \<or> i = 1 \<or> i = 2"
proof -
  have "unat i * 3 < 7 \<longleftrightarrow> unat i = 0 \<or> unat i = 1 \<or> unat i = 2" by linarith
  then show ?thesis by (simp add: word_unat_eq_iff)
qed

lemma full_cache_coherent: "coherent an_env a_coordinator (object_key ''b'' ''k'') ''abcdefg'' full_cache"
  by (auto simp: coherent_def full_cache_views chunk_indices chunk_slice_def complete_chunk_def)

lemma full_cache_cached: "unat i * 3 < 7 \<Longrightarrow> cached an_env a_coordinator (object_key ''b'' ''k'') i full_cache"
  unfolding chunk_indices by (auto simp: cached_def full_cache_views complete_chunk_def)

lemmas sample_promises =
  sample_honours_ranges [of "''k''" one_object "''b''", OF _ one_object_k]
  sample_reports [of "''k''" one_object "''b''", OF _ one_object_k]

text \<open>The metadata, and the parts of a read of the bytes 1 to 4.\<close>

lemma sample_plan:
  "read_plan 3 7 1 5 = [\<lparr>cr_idx = 0, cr_offset = 1, cr_length = 2\<rparr>, \<lparr>cr_idx = 1, cr_offset = 0, cr_length = 2\<rparr>]"
  by (simp add: read_plan_def u64_range_incl_def chunk_read_of_def upt_rec)

lemma sample_refresh_cold:
  "\<exists>w1. get_object_metadata an_env a_coordinator ''b'' ''k'' empty_world = (Inr the_meta, w1) \<and>
     chunk_of an_env w1 = chunk_of an_env empty_world \<and> db_good an_env w1"
  by (auto simp: get_object_metadata_def Let_def io_bind_apply io_seq_apply sample_head one_object_k
      sample_get_object empty_db_good sample_put_object the_meta_def)

lemma sample_refresh_warm:
  "\<exists>w1. get_object_metadata an_env a_coordinator ''b'' ''k'' full_cache = (Inr the_meta, w1)"
  by (auto simp: get_object_metadata_def Let_def io_bind_apply io_seq_apply sample_head one_object_k
      sample_get_object full_cache_good sample_put_object full_cache_views) (simp_all add: the_meta_def)

lemma sample_read_warm:
  "\<exists>w1. read_range an_env a_coordinator ''b'' ''k'' 1 5 full_cache = (Inr (ChunkReads (read_plan 3 7 1 5)), w1)"
  using sample_refresh_warm by (auto simp: read_range_def io_bind_apply the_meta_def word_le_nat_alt)

lemma read_hit_witness:
  "\<exists>w1 ps w2. run_stream an_env a_coordinator ''b'' ''k'' (ChunkReads (read_plan 3 7 1 5)) w1 = (Inr ps, w2) \<and>
     sent w2 = sent w1 \<and> collect [] ps = Inr ''bcde''"
proof -
  from sample_read_warm obtain w1 where
    "read_range an_env a_coordinator ''b'' ''k'' 1 5 full_cache = (Inr (ChunkReads (read_plan 3 7 1 5)), w1)" ..
  from read_hit [OF sample_faultless sample_hash_ok full_cache_good full_cache_coherent full_cache_views(1) _ _ _ _ _ this,
      of "Some ''t1''"] sample_promises full_cache_cached
  show ?thesis by (auto simp: the_meta_def slice_def)
qed


text \<open>A cache that holds the chunks of an older version.\<close>

definition old_cache :: world where
  "old_cache = add_chunk 0 ''xxx'' (with_object (object_key ''b'' ''k'') (the_meta\<lparr>etag := Some ''t0''\<rparr>) empty_world)"

lemma old_cache_good: "db_good an_env old_cache"
  by (simp add: old_cache_def add_chunk_def with_good with_chunk_good empty_db_good)

lemma old_cache_version: "version_ok an_env a_coordinator (object_key ''b'' ''k'') ''abcdefg'' (Some ''t1'') old_cache"
  by (auto simp: version_ok_def old_cache_def add_chunk_def with_views the_meta_def split: if_splits)

lemma sample_head_k: "\<exists>w1. head_object an_env (proxy a_coordinator) ''b'' ''k'' w = (Inr the_meta, w1)"
  by (simp add: sample_head one_object_k the_meta_def)

lemma sample_refresh_old:
  obtains w1 where "get_object_metadata an_env a_coordinator ''b'' ''k'' old_cache = (Inr the_meta, w1)"
    and "db_good an_env w1" and "\<And>i. chunk_of an_env w1 (object_key ''b'' ''k'', i) = None"
proof -
  have cs: "chunk_size a_coordinator \<noteq> 0" by simp
  from sample_head_k obtain w0 where "head_object an_env (proxy a_coordinator) ''b'' ''k'' old_cache = (Inr the_meta, w0)" ..
  from refresh_returns [OF sample_faultless sample_hash_ok old_cache_good cs this] obtain w1
    where g: "get_object_metadata an_env a_coordinator ''b'' ''k'' old_cache = (Inr the_meta, w1)" ..
  note r = refresh_faultless(3) [OF sample_faultless sample_hash_ok old_cache_good cs g, of "the_meta\<lparr>etag := Some ''t0''\<rparr>"]
  note rw = refresh_world [OF old_cache_good g]
  have "chunk_of an_env w1 (object_key ''b'' ''k'', i) = None" for i
  proof (cases "i = 0")
    case True
    with r [of 0] show ?thesis by (simp add: old_cache_def add_chunk_def with_views the_meta_def)
  next
    case False
    then have "chunk_of an_env old_cache (object_key ''b'' ''k'', i) = None"
      by (simp add: old_cache_def add_chunk_def with_views)
    with rw show ?thesis unfolding only_refreshed_def by metis
  qed
  with that g rw show ?thesis by blast
qed

lemma sample_stream_cold:
  assumes "db_good an_env w" and "\<And>i. chunk_of an_env w (object_key ''b'' ''k'', i) = None"
  shows "\<exists>w2. run_stream an_env a_coordinator ''b'' ''k'' (ChunkReads (read_plan 3 7 1 5)) w = (Inr [Inr ''bc'', Inr ''de''], w2)"
  using assms
  by (simp add: run_stream_def sample_plan read_chunk_def Let_def io_bind_apply io_try_apply sample_get_chunk
      chunk_is_complete_def sample_get one_object_k)

lemma read_range_old:
  "get_object_metadata an_env a_coordinator ''b'' ''k'' w = (Inr the_meta, w1) \<Longrightarrow>
   read_range an_env a_coordinator ''b'' ''k'' 1 5 w = (Inr (ChunkReads (read_plan 3 7 1 5)), w1)"
  by (simp add: read_range_def io_bind_apply the_meta_def word_le_nat_alt)

lemma read_transparent_witness: "\<exists>w1 w2.
    run_stream an_env a_coordinator ''b'' ''k'' (ChunkReads (read_plan 3 7 1 5)) w1 = (Inr [Inr ''bc'', Inr ''de''], w2) \<and>
    ''bcde'' = slice 1 5 ''abcdefg''"
proof -
  from sample_refresh_cold obtain w1 where g: "get_object_metadata an_env a_coordinator ''b'' ''k'' empty_world = (Inr the_meta, w1)"
    and w1: "chunk_of an_env w1 = chunk_of an_env empty_world" "db_good an_env w1" by blast
  from sample_stream_cold [OF w1(2)] w1(1) obtain w2 where
    s: "run_stream an_env a_coordinator ''b'' ''k'' (ChunkReads (read_plan 3 7 1 5)) w1 = (Inr [Inr ''bc'', Inr ''de''], w2)" by auto
  have "coherent an_env a_coordinator (object_key ''b'' ''k'') ''abcdefg'' empty_world" by (simp add: coherent_def)
  from read_transparent [OF empty_db_good this _ _ _ read_range_old [OF g] s, of "Some ''t1''" "''bcde''"] sample_promises s
  show ?thesis by auto
qed

lemma refresh_current_witness:
  "\<exists>w1. get_object_metadata an_env a_coordinator ''b'' ''k'' old_cache = (Inr the_meta, w1) \<and>
    coherent an_env a_coordinator (object_key ''b'' ''k'') ''abcdefg'' w1"
proof -
  obtain w1 where
    g: "get_object_metadata an_env a_coordinator ''b'' ''k'' old_cache = (Inr the_meta, w1)" using sample_refresh_old by blast
  from refresh_current [OF sample_faultless sample_hash_ok old_cache_good _ _ old_cache_version g] sample_promises g
  show ?thesis by auto
qed

lemma read_current_witness: "\<exists>w1 w2.
    run_stream an_env a_coordinator ''b'' ''k'' (ChunkReads (read_plan 3 7 1 5)) w1 = (Inr [Inr ''bc'', Inr ''de''], w2) \<and>
    ''bcde'' = slice 1 5 ''abcdefg''"
proof -
  obtain w1 where
    g: "get_object_metadata an_env a_coordinator ''b'' ''k'' old_cache = (Inr the_meta, w1)" and w1: "db_good an_env w1"
    "\<And>i. chunk_of an_env w1 (object_key ''b'' ''k'', i) = None" by (rule sample_refresh_old) blast
  from sample_stream_cold [OF w1] obtain w2 where
    s: "run_stream an_env a_coordinator ''b'' ''k'' (ChunkReads (read_plan 3 7 1 5)) w1 = (Inr [Inr ''bc'', Inr ''de''], w2)" ..
  from read_current [OF sample_faultless sample_hash_ok old_cache_good _ old_cache_version _ _ _ read_range_old [OF g] s, of "''bcde''"]
    sample_promises s
  show ?thesis by auto
qed


end
