(* ===== verification/Writes.thy ===== *)
theory Writes
  imports Reads
begin

text \<open>
  The upload path: the write loop cuts the body into chunks, returns for every chunk size but 0,
  and a successful upload leaves every chunk of the contents in the cache, so that the next read
  is served from it; nothing is registered before upstream has taken the whole body.
\<close>

lemma unat_pos: "(c :: u64) \<noteq> 0 \<Longrightarrow> 0 < unat c"
  by (simp add: unat_gt_0)

section \<open>The state of the write loop\<close>

definition file_frame :: "world \<Rightarrow> world \<Rightarrow> bool" where
  "file_frame w w' \<longleftrightarrow> objects w' = objects w \<and> chunks w' = chunks w \<and> sent w' = sent w"

lemma file_frame_refl [simp]: "file_frame w w"
  by (simp add: file_frame_def)

lemma file_frame_trans: "file_frame u v \<Longrightarrow> file_frame v w \<Longrightarrow> file_frame u w"
  by (simp add: file_frame_def)

lemma file_frame_ticks [simp]: "file_frame u (w\<lparr>ticks := n\<rparr>) = file_frame u w"
  by (simp add: file_frame_def)

lemma file_frame_views:
  assumes "file_frame w w'"
  shows "db_good e w' = db_good e w" "chunk_of e w' = chunk_of e w" "object_of e w' = object_of e w" "sent w' = sent w"
  using assms by (simp_all add: file_frame_def db_good_def chunk_of_def object_of_def fun_eq_iff)

lemma chunk_file_frame:
  "write_chunk e st k i d w = (r, w') \<Longrightarrow> file_frame w w'"
  "delete_chunk_file e st k i w = (r0, w') \<Longrightarrow> file_frame w w'"
  by (rule keepsD [where P = "file_frame w"]; (rule keeps_files | assumption)?; simp add: file_frame_def)+

text \<open>
  The chunks written so far are the first ones of the bytes piped so far, and the buffer holds
  the rest.
\<close>

definition written_upto :: "env \<Rightarrow> storage \<Rightarrow> string \<Rightarrow> u64 \<Rightarrow> write_state \<Rightarrow> world \<Rightarrow> bool" where
  "written_upto e st k cs ws w \<longleftrightarrow>
     (let d = concat (ws_piped ws); n = unat (ws_idx ws)
      in n * unat cs \<le> length d \<and> ws_buffer ws = drop (n * unat cs) d \<and>
         ws_written ws = map (\<lambda>i. (of_nat i, cs)) [0..<n] \<and>
         (\<forall>i < n. file_of e st k w (of_nat i) = Some (chunk_slice cs d i)))"

lemma chunk_slice_append:
  "Suc i * unat cs \<le> length d \<Longrightarrow> chunk_slice cs (d @ b) i = chunk_slice cs d i"
  by (simp add: chunk_slice_def)

lemma length_chunk_slice: "length (chunk_slice cs d i) = min (unat cs) (length d - i * unat cs)"
  by (simp add: chunk_slice_def)

text \<open>More bytes arrive.\<close>

lemma written_piece:
  assumes "written_upto e st k cs ws w" and "ws_error ws = None"
  shows "written_upto e st k cs (ws\<lparr>ws_buffer := ws_buffer ws @ b, ws_piped := ws_piped ws @ [b]\<rparr>) w"
proof -
  let ?n = "unat (ws_idx ws)"
  have "Suc i * unat cs \<le> length (concat (ws_piped ws))" if "i < ?n" for i
  proof -
    from that have "Suc i * unat cs \<le> ?n * unat cs" by (intro mult_le_mono1) simp
    with assms(1) show ?thesis by (simp add: written_upto_def Let_def)
  qed
  with assms(1) show ?thesis by (simp add: written_upto_def Let_def chunk_slice_append)
qed

text \<open>One chunk is written.\<close>

lemma written_chunk:
  assumes "written_upto e st k cs ws w" and "fs_good e w" and "cs \<noteq> 0"
    and "length (concat (ws_piped ws)) < 2 ^ 64" and "unat cs \<le> length (ws_buffer ws)"
    and "file_of e st k w' = (file_of e st k w)(ws_idx ws \<mapsto> take (unat cs) (ws_buffer ws))"
  shows "written_upto e st k cs (ws\<lparr>ws_buffer := drop (unat cs) (ws_buffer ws),
      ws_written := ws_written ws @ [(ws_idx ws, cs)], ws_idx := ws_idx ws + 1\<rparr>) w'"
proof -
  let ?n = "unat (ws_idx ws)" and ?d = "concat (ws_piped ws)"
  from assms(1) have buf: "ws_buffer ws = drop (?n * unat cs) ?d" and le: "?n * unat cs \<le> length ?d"
    and wr: "ws_written ws = map (\<lambda>i. (of_nat i, cs)) [0..<?n]"
    and fl: "\<And>i. i < ?n \<Longrightarrow> file_of e st k w (of_nat i) = Some (chunk_slice cs ?d i)"
    by (simp_all add: written_upto_def Let_def)
  from assms(5) le have le': "?n * unat cs + unat cs \<le> length ?d" by (simp add: buf)
  have "0 < unat cs" "?n \<le> ?n * unat cs" using unat_pos [OF assms(3)] by simp_all
  with le' assms(4) have n1: "?n + 1 < 2 ^ 64" by linarith
  then have "unat (ws_idx ws + 1) = Suc ?n" by (simp add: unat_Suc_u64)
  then have Suc: "unat (1 + ws_idx ws) = Suc ?n" by (simp add: add.commute)
  have "file_of e st k w' (of_nat i) = Some (chunk_slice cs ?d i)" if "i < Suc ?n" for i
  proof (cases "i = ?n")
    case True
    then show ?thesis by (simp add: assms(6) buf chunk_slice_def)
  next
    case False
    with that have i: "i < ?n" by simp
    moreover have "(of_nat i :: u64) \<noteq> ws_idx ws"
    proof
      assume "of_nat i = ws_idx ws"
      then have "unat (of_nat i :: u64) = ?n" by simp
      moreover have "unat (of_nat i :: u64) = i" using i n1 by (intro unat_of_nat_u64) linarith
      ultimately show False using i by simp
    qed
    ultimately show ?thesis by (simp add: assms(6) fl)
  qed
  with le' wr show ?thesis by (simp add: written_upto_def Let_def Suc buf add.commute)
qed

text \<open>Cutting the buffer into chunks returns, and goes on until less than a chunk is left.\<close>

lemma drain_chunks_spec:
  assumes "cs \<noteq> 0" and "fs_good e w" and "written_upto e st k cs ws w" and "ws_error ws = None"
    and "length (concat (ws_piped ws)) < 2 ^ 64"
  shows "\<exists>ws' w'. drain_chunks e st k cs ws w = Some (Inr ws', w') \<and> file_frame w w' \<and> fs_good e w' \<and>
    ws_piped ws' = ws_piped ws \<and>
    (ws_error ws' = None \<longrightarrow> written_upto e st k cs ws' w' \<and> length (ws_buffer ws') < unat cs) \<and>
    (disk_calm e \<longrightarrow> ws_error ws' = None)"
  using assms(2-)
proof (induction "length (ws_buffer ws)" arbitrary: ws w rule: less_induct)
  case less
  note g = less.prems(1) and inv = less.prems(2) and ok = less.prems(3) and small = less.prems(4)
  show ?case
  proof (cases "unat cs \<le> length (ws_buffer ws)")
    case False
    with inv g ok show ?thesis by (subst drain_chunks.simps) simp
  next
    case True
    obtain r1 w1 where wr: "write_chunk e st k (ws_idx ws) (take (unat cs) (ws_buffer ws)) w = (r1, w1)"
      by (cases "write_chunk e st k (ws_idx ws) (take (unat cs) (ws_buffer ws)) w")
    note cell = write_chunk_cell [OF g wr] and frame = chunk_file_frame(1) [OF wr]
    show ?thesis
    proof (cases r1)
      case (Inl f)
      with cell obtain m where "f = Error m" by auto
      with Inl True wr cell frame show ?thesis by (subst drain_chunks.simps) simp
    next
      case (Inr u)
      let ?ws = "ws\<lparr>ws_buffer := drop (unat cs) (ws_buffer ws),
          ws_written := ws_written ws @ [(ws_idx ws, cs)], ws_idx := ws_idx ws + 1\<rparr>"
      from Inr cell have f: "file_of e st k w1 = (file_of e st k w)(ws_idx ws \<mapsto> take (unat cs) (ws_buffer ws))"
        and g1: "fs_good e w1" by auto
      have "length (ws_buffer ?ws) < length (ws_buffer ws)"
        using True unat_pos [OF assms(1)] by simp
      from less.hyps [OF this g1 written_chunk [OF inv g assms(1) small True f]] ok small
      obtain ws' w' where "drain_chunks e st k cs ?ws w1 = Some (Inr ws', w')" "file_frame w1 w'"
        "fs_good e w'" "ws_piped ws' = ws_piped ws"
        "ws_error ws' = None \<longrightarrow> written_upto e st k cs ws' w' \<and> length (ws_buffer ws') < unat cs"
        "disk_calm e \<longrightarrow> ws_error ws' = None"
        by auto
      with Inr True wr frame show ?thesis
        by (subst drain_chunks.simps) (auto intro: file_frame_trans)
    qed
  qed
qed

text \<open>With a chunk size of 0 and no failing write the loop never ends.\<close>

lemma drain_chunks_zero_aux:
  assumes "drain_chunks e st k cs ws w = Some y"
  shows "cs = 0 \<longrightarrow> disk_calm e \<longrightarrow> fs_good e w \<longrightarrow> False"
proof (rule drain_chunks.raw_induct [OF _ assms], goal_cases)
  case (1 drain e st k cs ws w y)
  show ?case
  proof (intro impI)
    assume z: "cs = 0" and c: "disk_calm e" and g: "fs_good e w"
    obtain r1 w1 where wr: "write_chunk e st k (ws_idx ws) (take (unat cs) (ws_buffer ws)) w = (r1, w1)"
      by (cases "write_chunk e st k (ws_idx ws) (take (unat cs) (ws_buffer ws)) w")
    from write_chunk_cell [OF g wr] c have "r1 = Inr ()" "fs_good e w1" by auto
    with 1 z c wr show False by auto
  qed
qed

lemma drain_chunks_zero:
  assumes "disk_calm e" and "fs_good e w"
  shows "drain_chunks e st k 0 ws w = None"
  using drain_chunks_zero_aux [of e st k 0 ws w] assms by (cases "drain_chunks e st k 0 ws w") auto

section \<open>The body\<close>

fun body_bytes :: "piece_stream \<Rightarrow> bytes" where
  "body_bytes [] = []"
| "body_bytes (Inl _ # ps) = body_bytes ps"
| "body_bytes (Inr b # ps) = b @ body_bytes ps"

lemma body_bytes_map [simp]: "body_bytes (map Inr bs) = concat bs"
  by (induction bs) auto

lemma pump_body_spec:
  assumes "cs \<noteq> 0" and "fs_good e w" and "written_upto e st k cs ws w" and "ws_error ws = None"
    and "length (ws_buffer ws) < unat cs"
    and "length (concat (ws_piped ws)) + length (body_bytes ps) < 2 ^ 64"
  shows "\<exists>ws' w'. pump_body e st k cs ps ws w = (Inr ws', w') \<and> file_frame w w' \<and> fs_good e w' \<and>
    (ws_error ws' = None \<longrightarrow> written_upto e st k cs ws' w' \<and> length (ws_buffer ws') < unat cs \<and>
       (\<exists>bs. ps = map Inr bs \<and> ws_piped ws' = ws_piped ws @ bs)) \<and>
    (disk_calm e \<and> rx_closed e = (\<lambda>_. False) \<and> (\<forall>p \<in> set ps. \<not> isl p) \<longrightarrow> ws_error ws' = None)"
  using assms(2-)
proof (induction ps arbitrary: ws w)
  case Nil
  then show ?case by auto
next
  case (Cons p ps)
  show ?case
  proof (cases p)
    case (Inl err)
    with Cons.prems(1) show ?thesis by auto
  next
    case (Inr b)
    let ?w1 = "w\<lparr>ticks := Suc (ticks w)\<rparr>"
    let ?ws = "ws\<lparr>ws_buffer := ws_buffer ws @ b, ws_piped := ws_piped ws @ [b]\<rparr>"
    show ?thesis
    proof (cases "rx_closed e (ticks w)")
      case True
      with Inr Cons.prems(1) show ?thesis by (auto simp: io_bind_apply pipe_send_def fs_good_def)
    next
      case False
      have g1: "fs_good e ?w1" using Cons.prems(1) by (simp add: fs_good_def)
      have "written_upto e st k cs ws ?w1" using Cons.prems(2) by (simp add: written_upto_def file_of_def)
      note inv1 = written_piece [OF this Cons.prems(3), of b]
      have ok1: "ws_error ?ws = None" and small1: "length (concat (ws_piped ?ws)) < 2 ^ 64"
        using Cons.prems(3,5) Inr by simp_all
      from drain_chunks_spec [OF assms(1) g1 inv1 ok1 small1]
      obtain ws2 w2 where d: "drain_chunks e st k cs ?ws ?w1 = Some (Inr ws2, w2)"
        and fr: "file_frame ?w1 w2" "fs_good e w2" and piped: "ws_piped ws2 = ws_piped ?ws"
        and inv2: "ws_error ws2 = None \<longrightarrow> written_upto e st k cs ws2 w2 \<and> length (ws_buffer ws2) < unat cs"
        and calm2: "disk_calm e \<longrightarrow> ws_error ws2 = None"
        by (elim exE conjE)
      have fr2: "file_frame w w2" using fr(1) by (simp add: file_frame_def)
      show ?thesis
      proof (cases "ws_error ws2 = None")
        case e: False
        with Inr False d fr2 fr(2) calm2 show ?thesis
          by (auto simp: io_bind_apply pipe_send_def diverging_def)
      next
        case e: True
        have "length (concat (ws_piped ws2)) + length (body_bytes ps) < 2 ^ 64"
          using Cons.prems(5) Inr piped by simp
        from Cons.IH [OF fr(2) _ e _ this] inv2 e
        have "\<exists>ws' w'. pump_body e st k cs ps ws2 w2 = (Inr ws', w') \<and> file_frame w2 w' \<and> fs_good e w' \<and>
          (ws_error ws' = None \<longrightarrow> written_upto e st k cs ws' w' \<and> length (ws_buffer ws') < unat cs \<and>
            (\<exists>bs. ps = map Inr bs \<and> ws_piped ws' = ws_piped ws2 @ bs)) \<and>
          (disk_calm e \<and> rx_closed e = (\<lambda>_. False) \<and> (\<forall>p \<in> set ps. \<not> isl p) \<longrightarrow> ws_error ws' = None)" by simp
        then obtain ws' w' where "pump_body e st k cs ps ws2 w2 = (Inr ws', w')" "file_frame w2 w'" "fs_good e w'"
          and fin: "ws_error ws' = None \<longrightarrow> written_upto e st k cs ws' w' \<and> length (ws_buffer ws') < unat cs \<and>
            (\<exists>bs. ps = map Inr bs \<and> ws_piped ws' = ws_piped ws2 @ bs)"
          and calm: "disk_calm e \<and> rx_closed e = (\<lambda>_. False) \<and> (\<forall>p \<in> set ps. \<not> isl p) \<longrightarrow> ws_error ws' = None"
          by (elim exE conjE)
        moreover have "\<exists>cs. p # ps = map Inr cs \<and> ws_piped ws' = ws_piped ws @ cs"
          if "ps = map Inr bs" "ws_piped ws' = ws_piped ws2 @ bs" for bs
          using that piped Inr by (intro exI [of _ "b # bs"]) simp
        ultimately show ?thesis using Inr False d fr2 e
          by (auto simp: io_bind_apply pipe_send_def diverging_def intro: file_frame_trans)
      qed
    qed
  qed
qed

text \<open>
  After the last chunk: the chunks of the body are in their files, and listed.
\<close>

definition all_written :: "env \<Rightarrow> storage \<Rightarrow> string \<Rightarrow> u64 \<Rightarrow> bytes \<Rightarrow> (u64 \<times> u64) list \<Rightarrow> world \<Rightarrow> bool" where
  "all_written e st k cs d written w \<longleftrightarrow>
     (\<forall>i. unat i * unat cs < length d \<longleftrightarrow> i \<in> fst ` set written) \<and>
     (\<forall>i. unat i * unat cs < length d \<longrightarrow> file_of e st k w i = Some (chunk_slice cs d (unat i)))"

lemma fst_set_written:
  "n < 2 ^ 64 \<Longrightarrow> (i :: u64) \<in> fst ` set (map (\<lambda>i. (of_nat i, c)) [0..<n]) \<longleftrightarrow> unat i < n"
proof
  assume n: "n < 2 ^ 64" and "i \<in> fst ` set (map (\<lambda>i. (of_nat i, c)) [0..<n])"
  then obtain m where "i = of_nat m" "m < n" by auto
  with n show "unat i < n" by (simp add: unat_of_nat_u64)
next
  assume "unat i < n"
  then show "i \<in> fst ` set (map (\<lambda>i. (of_nat i, c)) [0..<n])" by (intro image_eqI [of _ _ "(i, c)"]) (auto intro!: image_eqI [of _ _ "unat i"])
qed

lemma write_last_spec:
  assumes "cs \<noteq> 0" and "fs_good e w" and "length (concat (ws_piped ws)) < 2 ^ 64"
    and "ws_error ws = None \<longrightarrow> written_upto e st k cs ws w \<and> length (ws_buffer ws) < unat cs"
  shows "\<exists>ws' w'. write_last e st k ws w = (Inr ws', w') \<and> file_frame w w' \<and> fs_good e w' \<and>
    ws_piped ws' = ws_piped ws \<and> (ws_error ws \<noteq> None \<longrightarrow> ws_error ws' \<noteq> None) \<and>
    (ws_error ws = None \<longrightarrow> disk_calm e \<longrightarrow> ws_error ws' = None) \<and>
    (ws_error ws' = None \<longrightarrow> all_written e st k cs (concat (ws_piped ws)) (ws_written ws') w')"
proof (cases "ws_error ws = None")
  case False
  with assms(2) show ?thesis by (auto simp: write_last_def)
next
  case True
  let ?n = "unat (ws_idx ws)" and ?d = "concat (ws_piped ws)" and ?c = "unat cs"
  from True assms(4) have buf: "ws_buffer ws = drop (?n * ?c) ?d" and le: "?n * ?c \<le> length ?d"
    and wr: "ws_written ws = map (\<lambda>i. (of_nat i, cs)) [0..<?n]"
    and fl: "\<And>i. i < ?n \<Longrightarrow> file_of e st k w (of_nat i) = Some (chunk_slice cs ?d i)"
    by (simp_all add: written_upto_def Let_def)
  from True assms(4) have short: "length (ws_buffer ws) < ?c" by blast
  have c: "0 < ?c" by (rule unat_pos [OF assms(1)])
  have n: "?n < 2 ^ 64" by (rule unat_u64_less)
  have full: "unat i * ?c < length ?d \<longleftrightarrow> unat i < ?n \<or> i = ws_idx ws \<and> ws_buffer ws \<noteq> []" for i
  proof -
    have "length ?d < ?n * ?c + ?c" using short le by (simp add: buf)
    then have "unat i * ?c < length ?d \<Longrightarrow> unat i * ?c < Suc ?n * ?c" by simp
    then have "unat i * ?c < length ?d \<Longrightarrow> unat i \<le> ?n" using c by (simp del: mult_Suc)
    moreover have "unat i < ?n \<Longrightarrow> unat i * ?c < length ?d"
      using le c by (meson dual_order.strict_trans1 mult_less_mono1)
    moreover have "?n * ?c < length ?d \<longleftrightarrow> ws_buffer ws \<noteq> []" by (auto simp: buf)
    moreover have "unat i = ?n \<longleftrightarrow> i = ws_idx ws" by (simp add: word_unat_eq_iff)
    ultimately show ?thesis by (metis le_neq_implies_less)
  qed
  have old: "i \<in> fst ` set (ws_written ws) \<longleftrightarrow> unat i < ?n" for i
    unfolding wr by (rule fst_set_written [OF n])
  have oldf: "unat i < ?n \<Longrightarrow> file_of e st k w i = Some (chunk_slice cs ?d (unat i))" for i
    using fl [of "unat i"] by simp
  show ?thesis
  proof (cases "ws_buffer ws = []")
    case b: True
    have "all_written e st k cs ?d (ws_written ws) w"
      unfolding all_written_def full old using b oldf by simp
    with b assms(2) show ?thesis by (simp add: write_last_def)
  next
    case b: False
    obtain r1 w1 where run: "write_chunk e st k (ws_idx ws) (ws_buffer ws) w = (r1, w1)"
      by (cases "write_chunk e st k (ws_idx ws) (ws_buffer ws) w")
    note cell = write_chunk_cell [OF assms(2) run] and frame = chunk_file_frame(1) [OF run]
    show ?thesis
    proof (cases r1)
      case (Inl f)
      with cell obtain m where "f = Error m" by auto
      with Inl run True b cell frame show ?thesis by (simp add: write_last_def io_bind_apply io_try_apply)
    next
      case (Inr u)
      with cell have f: "file_of e st k w1 = (file_of e st k w)(ws_idx ws \<mapsto> ws_buffer ws)" by auto
      have "ws_buffer ws = chunk_slice cs ?d ?n" using short by (simp add: buf chunk_slice_def)
      then have "file_of e st k w1 i = Some (chunk_slice cs ?d (unat i))" if "unat i < ?n \<or> i = ws_idx ws" for i
        using that oldf by (auto simp: f)
      then have "all_written e st k cs ?d (ws_written ws @ [(ws_idx ws, of_nat (length (ws_buffer ws)))]) w1"
        unfolding all_written_def full using b old by auto
      with Inr run True b cell frame show ?thesis by (simp add: write_last_def io_bind_apply io_try_apply)
    qed
  qed
qed

section \<open>An upload, step by step\<close>

lemma errors_drop: "chunk_size co \<noteq> 0 \<Longrightarrow> errors_only (drop_cache_for_object e co bucket key)"
  unfolding drop_cache_for_object_def num_chunks_def Let_def by (intro errors_intros) simp_all

text \<open>What follows the loops, on their final state.\<close>

definition finish_put ::
  "env \<Rightarrow> coordinator \<Rightarrow> string \<Rightarrow> string \<Rightarrow> u64 \<Rightarrow> string option \<Rightarrow> write_state \<Rightarrow> string act" where
  "finish_put e co bucket key len ctype ws =
     (let k = object_key bucket key; st = co_storage co;
          upload = io_join (put_object_stream e (proxy co) bucket key (ws_piped ws) len ctype)
      in case ws_error ws of
           None \<Rightarrow>
             io_bind upload (\<lambda>tag.
             io_seq (io_for (\<lambda>(idx, sz). io_bind (now_secs e) (\<lambda>now.
                  put_chunk e k idx \<lparr>size_of = ucast sz, last_accessed_at = now, status = Complete\<rparr>))
                (ws_written ws))
             (io_bind (now_secs e) (\<lambda>now.
             io_seq (put_object e k
                \<lparr>content_length = len, content_type = ctype, etag = Some tag, last_modified = now\<rparr>)
             (io_return tag))))
         | Some err \<Rightarrow>
             io_seq (io_ignore upload)
             (io_seq (io_for (\<lambda>idx. io_ignore (delete_chunk_file e st k idx)) (u64_range_incl 0 (ws_idx ws)))
             (io_fail (Error err))))"

text \<open>The drop and the two loops return, and leave the chunks of the body in their files.\<close>

lemma put_loops:
  assumes "db_good e w" and "hash_ok e" and "chunk_size co \<noteq> 0" and "length (body_bytes ps) < 2 ^ 64"
  shows "\<exists>ws w2.
    write_and_cache_object e co bucket key ps len ctype w = finish_put e co bucket key len ctype ws w2 \<and>
    db_good e w2 \<and>
    sent w2 = sent w \<and>
    (\<forall>x. chunk_of e w2 x = chunk_of e w x \<or> fst x = object_key bucket key \<and> chunk_of e w2 x = None) \<and>
    (\<forall>k'. object_of e w2 k' = object_of e w k' \<or> k' = object_key bucket key \<and> object_of e w2 k' = None) \<and>
    (ws_error ws = None \<longrightarrow> ps = map Inr (ws_piped ws)) \<and>
    (ws_error ws = None \<longrightarrow> all_written e (co_storage co) (object_key bucket key) (chunk_size co) (body_bytes ps) (ws_written ws) w2) \<and>
    (disk_calm e \<and> rx_closed e = (\<lambda>_. False) \<and> (\<forall>p \<in> set ps. \<not> isl p) \<longrightarrow> ws_error ws = None)"
proof -
  let ?k = "object_key bucket key" and ?st = "co_storage co" and ?cs = "chunk_size co"
  let ?ws0 = "\<lparr>ws_error = None, ws_idx = 0, ws_buffer = [], ws_written = [], ws_piped = []\<rparr>"
  obtain r0 w0 where d: "drop_cache_for_object e co bucket key w = (r0, w0)"
    by (cases "drop_cache_for_object e co bucket key w")
  have d': "io_ignore (drop_cache_for_object e co bucket key) w = (Inr (), w0)"
    using errors_drop [OF assms(3)] d by (rule ignore_apply)
  note dw = drop_world [OF assms(1) d]
  have views: "db_good e u" "sent u = sent w"
    "chunk_of e u x = chunk_of e w x \<or> fst x = ?k \<and> chunk_of e u x = None"
    "object_of e u k' = object_of e w k' \<or> k' = ?k \<and> object_of e u k' = None"
    if "file_frame w0 u" for u x k'
    using dw file_frame_views [OF that] unfolding only_dropped_def by (simp_all del: split_paired_All)
  have g0: "fs_good e w0" using assms(2) by (simp add: fs_good_def)
  have i0: "written_upto e ?st ?k ?cs ?ws0 w0" by (simp add: written_upto_def)
  from pump_body_spec [OF assms(3) g0 i0, of ps] assms(4) unat_pos [OF assms(3)]
  have "\<exists>ws1 w1. pump_body e ?st ?k ?cs ps ?ws0 w0 = (Inr ws1, w1) \<and> file_frame w0 w1 \<and> fs_good e w1 \<and>
    (ws_error ws1 = None \<longrightarrow> written_upto e ?st ?k ?cs ws1 w1 \<and> length (ws_buffer ws1) < unat ?cs \<and>
       (\<exists>bs. ps = map Inr bs \<and> ws_piped ws1 = [] @ bs)) \<and>
    (disk_calm e \<and> rx_closed e = (\<lambda>_. False) \<and> (\<forall>p \<in> set ps. \<not> isl p) \<longrightarrow> ws_error ws1 = None)" by simp
  then obtain ws1 w1 where p: "pump_body e ?st ?k ?cs ps ?ws0 w0 = (Inr ws1, w1)"
    and f1: "file_frame w0 w1" and g1: "fs_good e w1"
    and inv1: "ws_error ws1 = None \<longrightarrow> written_upto e ?st ?k ?cs ws1 w1 \<and> length (ws_buffer ws1) < unat ?cs \<and>
       (\<exists>bs. ps = map Inr bs \<and> ws_piped ws1 = [] @ bs)"
    and calm1: "disk_calm e \<and> rx_closed e = (\<lambda>_. False) \<and> (\<forall>p \<in> set ps. \<not> isl p) \<longrightarrow> ws_error ws1 = None"
    by (elim exE conjE)
  show ?thesis
  proof (cases "ws_error ws1 = None")
    case False
    then have l: "write_last e ?st ?k ws1 w1 = (Inr ws1, w1)" by (auto simp: write_last_def)
    have "write_and_cache_object e co bucket key ps len ctype w = finish_put e co bucket key len ctype ws1 w1"
      using d' p l by (simp add: write_and_cache_object_def finish_put_def Let_def io_bind_apply io_seq_apply)
    moreover note views [OF f1]
    moreover note calm1
    ultimately show ?thesis using False
      by (intro exI [of _ ws1] exI [of _ w1] conjI) (simp_all del: split_paired_All not_None_eq)
  next
    case True
    with inv1 have ps: "ps = map Inr (ws_piped ws1)" by auto
    then have bytes: "body_bytes ps = concat (ws_piped ws1)" by (metis body_bytes_map)
    have small: "length (concat (ws_piped ws1)) < 2 ^ 64" using assms(4) by (simp add: bytes)
    have inv2: "ws_error ws1 = None \<longrightarrow> written_upto e ?st ?k ?cs ws1 w1 \<and> length (ws_buffer ws1) < unat ?cs"
      using inv1 by simp
    from write_last_spec [OF assms(3) g1 small inv2]
    obtain ws w2 where l: "write_last e ?st ?k ws1 w1 = (Inr ws, w2)" and f2: "file_frame w1 w2"
      and pp: "ws_piped ws = ws_piped ws1" and c2: "ws_error ws1 = None \<longrightarrow> disk_calm e \<longrightarrow> ws_error ws = None"
      and fin: "ws_error ws = None \<longrightarrow> all_written e ?st ?k ?cs (concat (ws_piped ws1)) (ws_written ws) w2"
      by (elim exE conjE)
    have "write_and_cache_object e co bucket key ps len ctype w = finish_put e co bucket key len ctype ws w2"
      using d' p l by (simp add: write_and_cache_object_def finish_put_def Let_def io_bind_apply io_seq_apply)
    moreover note views [OF file_frame_trans [OF f1 f2]]
    ultimately show ?thesis using c2 True fin ps pp bytes
      by (intro exI [of _ ws] exI [of _ w2] conjI) (simp_all del: split_paired_All)
  qed
qed

section \<open>The upstream request of an upload\<close>

text \<open>Upstream has answered a PUT of these pieces with a success.\<close>

definition accepted :: "env \<Rightarrow> bytes list \<Rightarrow> world \<Rightarrow> bool" where
  "accepted e bs w \<longleftrightarrow> (\<exists>rq \<in> set (sent w). \<exists>n rs. rq_method rq = ''PUT'' \<and> rq_body rq = StreamBody bs \<and>
     upstream e n rq = Inr rs \<and> is_success (rs_status rs))"

lemma put_object_stream_accepted:
  assumes "put_object_stream e pc bucket key bs len ctype w = (Inr tag, w')"
  shows "accepted e bs w'"
  using assms unfolding put_object_stream_def Let_def
proof (elim io_bind_okE, goal_cases)
  case (1 x w0 hs w1 y w2 rq w3 rs w4)
  from 1(6) have ok: "is_success (rs_status rs)" and w': "w4 = w'" by (auto split: if_splits)
  from 1(5) have "upstream e (ticks w3) (rq\<lparr>rq_body := StreamBody bs\<rparr>) = Inr rs"
    and "rq\<lparr>rq_body := StreamBody bs\<rparr> \<in> set (sent w4)" by (auto simp: http_send_def split: sum.splits)
  moreover have "rq_method (rq\<lparr>rq_body := StreamBody bs\<rparr>) = ''PUT''" using prepare_request_fields [OF 1(4)] by simp
  ultimately show ?case using ok unfolding accepted_def w' [symmetric] by (intro bexI exI conjI) auto
qed

lemma io_join_cases:
  assumes "io_join m w = (r, w')"
  obtains x where "r = Inr x" and "m w = (Inr x, w')"
  | f where "r = Inl f" and "m w = (Inl f, w') \<or> (\<exists>p. m w = (Inl (Panic p), w') \<and> f = Error p)"
proof (cases "m w")
  case (Pair r0 w0)
  with assms that show thesis by (cases r0) (auto simp: io_join_def split: fail.splits)
qed

lemma halts_put_object_stream: "halts (put_object_stream e pc bucket key bs len ctype)"
  unfolding put_object_stream_def Let_def by (intro halts_intros errors_intros)

lemma errors_upload [errors_intros]: "errors_only (io_join (put_object_stream e pc bucket key bs len ctype))"
proof
  fix w f w' assume r: "io_join (put_object_stream e pc bucket key bs len ctype) w = (Inl f, w')"
  show "\<exists>s. f = Error s"
  proof (cases rule: io_join_cases [OF r])
    case (2 g)
    then show ?thesis
      using r haltsD [OF halts_put_object_stream, of e pc bucket key bs len ctype w w']
      by (cases f) (auto simp: io_join_def)
  qed simp
qed

section \<open>Registering the chunks\<close>

text \<open>The loop that registers the chunks of an upload.\<close>

lemma register_loop:
  assumes "db_good e w"
    and "io_for (\<lambda>(idx, sz). io_bind (now_secs e) (\<lambda>now.
           put_chunk e k idx \<lparr>size_of = ucast (sz :: u64), last_accessed_at = now, status = Complete\<rparr>)) written w = (r, w')"
  shows "db_good e w' \<and> files w' = files w \<and> objects w' = objects w \<and> sent w' = sent w \<and>
    (\<forall>f. r = Inl f \<longrightarrow> (\<exists>m. f = Error m) \<and> \<not> faultless e) \<and>
    (\<forall>x. x \<notin> Pair k ` fst ` set written \<longrightarrow> chunk_of e w' x = chunk_of e w x) \<and>
    (r = Inr () \<longrightarrow> (\<forall>i \<in> fst ` set written. \<exists>c. chunk_of e w' (k, i) = Some c \<and> status c = Complete))"
  using assms
proof (induction written arbitrary: w)
  case Nil
  then show ?case by auto
next
  case (Cons x written)
  obtain i sz where x: "x = (i, sz)" by (cases x)
  let ?body = "\<lambda>(idx, sz). io_bind (now_secs e) (\<lambda>now.
      put_chunk e k idx \<lparr>size_of = ucast (sz :: u64), last_accessed_at = now, status = Complete\<rparr>)"
  let ?c = "\<lparr>size_of = ucast sz, last_accessed_at = max 0 (clock e (ticks w)), status = Complete\<rparr>"
  obtain r1 w1 where p: "put_chunk e k i ?c w = (r1, w1)" by (cases "put_chunk e k i ?c w")
  have first: "?body (i, sz) w = (r1, w1)" by (simp add: io_bind_apply p)
  from Cons.prems(2) have seq: "io_seq (?body (i, sz)) (io_for ?body written) w = (r, w')"
    by (simp only: x io_for.simps)
  note cell = put_chunk_cell [OF Cons.prems(1) p]
  have fr: "files w1 = files w \<and> objects w1 = objects w \<and> sent w1 = sent w"
    using put_chunk_cases [of e k i ?c w] p by cases auto
  show ?case
  proof (cases r1)
    case (Inl f)
    have "io_seq (?body (i, sz)) (io_for ?body written) w = (Inl f, w1)"
      using first unfolding Inl by (rule io_seq_Inl)
    then have "(Inl f, w1) = (r, w')" using seq by (rule trans [OF sym])
    then have "r = Inl f \<and> w' = w1" by auto
    with Inl cell fr show ?thesis by auto
  next
    case (Inr u)
    have "io_seq (?body (i, sz)) (io_for ?body written) w = io_for ?body written w1"
      using first unfolding Inr by (rule io_seq_Inr)
    then have rest: "io_for ?body written w1 = (r, w')" using seq by (rule trans [OF sym])
    from Inr cell have g1: "db_good e w1" and v1: "chunk_of e w1 = (chunk_of e w)((k, i) \<mapsto> ?c)" by auto
    note ih = Cons.IH [OF g1 rest]
    have "\<exists>c. chunk_of e w' (k, i) = Some c \<and> status c = Complete" if "r = Inr ()"
    proof (cases "i \<in> fst ` set written")
      case True
      with ih that show ?thesis by blast
    next
      case False
      then have "(k, i) \<notin> Pair k ` fst ` set written" by auto
      with ih v1 show ?thesis by simp
    qed
    with ih fr v1 x show ?thesis by auto
  qed
qed

section \<open>Properties\<close>

lemma put_establishes:
  assumes "db_good e w" and "hash_ok e" and "chunk_size co \<noteq> 0" and "length (body_bytes ps) < 2 ^ 64"
    and "write_and_cache_object e co bucket key ps len ctype w = (Inr tag, w')"
  shows "db_good e w' \<and> (\<exists>bs. ps = map Inr bs \<and> accepted e bs w') \<and>
    coherent e co (object_key bucket key) (body_bytes ps) w' \<and>
    (\<forall>i. length (body_bytes ps) \<le> unat i * unat (chunk_size co) \<or> cached e co (object_key bucket key) i w') \<and>
    (\<exists>m. object_of e w' (object_key bucket key) = Some m \<and> etag m = Some tag \<and> content_length m = len \<and> content_type m = ctype)"
proof -
  let ?k = "object_key bucket key" and ?st = "co_storage co" and ?cs = "chunk_size co"
  obtain ws w2 where eq: "write_and_cache_object e co bucket key ps len ctype w = finish_put e co bucket key len ctype ws w2"
    and g2: "db_good e w2" and ps: "ws_error ws = None \<longrightarrow> ps = map Inr (ws_piped ws)"
    and all: "ws_error ws = None \<longrightarrow> all_written e ?st ?k ?cs (body_bytes ps) (ws_written ws) w2"
    using put_loops [OF assms(1-4), of bucket key len ctype] by (elim exE conjE) rule
  from eq assms(5) have fin: "finish_put e co bucket key len ctype ws w2 = (Inr tag, w')" by simp
  have ok: "ws_error ws = None"
  proof (rule ccontr)
    assume "ws_error ws \<noteq> None"
    with fin show False by (auto simp: finish_put_def Let_def io_seq_apply split: prod.splits sum.splits)
  qed
  note ps = mp [OF ps ok] and all = mp [OF all ok]
  from fin ok obtain w3 x w4 m where
    up: "io_join (put_object_stream e (proxy co) bucket key (ws_piped ws) len ctype) w2 = (Inr tag, w3)"
    and reg: "io_for (\<lambda>(idx, sz). io_bind (now_secs e) (\<lambda>now.
           put_chunk e ?k idx \<lparr>size_of = ucast sz, last_accessed_at = now, status = Complete\<rparr>)) (ws_written ws) w3 = (Inr (), w4)"
    and put: "put_object e ?k m w4 = (Inr (), w')"
    and m: "content_length m = len" "content_type m = ctype" "etag m = Some tag"
    by (auto simp: finish_put_def Let_def now_secs_def elim!: io_bind_okE io_seq_okE)
  from up have up': "put_object_stream e (proxy co) bucket key (ws_piped ws) len ctype w2 = (Inr tag, w3)"
    by (cases rule: io_join_cases) auto
  from requests_same_state(3) [OF up'] g2 have g3: "db_good e w3" and f3: "files w3 = files w2"
    by (simp_all add: same_state_def db_good_def)
  note rl = register_loop [OF g3 reg]
  from rl have g4: "db_good e w4" by blast
  have "files w' = files w4 \<and> sent w' = sent w4 \<and> chunk_of e w' = chunk_of e w4"
    using put_object_cases [of e ?k m w4] put by cases auto
  then have pf: "files w' = files w4" "sent w' = sent w4" "chunk_of e w' = chunk_of e w4" by simp_all
  have fo: "file_of e ?st ?k w' = file_of e ?st ?k w2"
    using rl f3 by (simp add: file_of_def pf fun_eq_iff)
  have "coherent e co ?k (body_bytes ps) w'"
    using all by (auto simp: coherent_def fo all_written_def)
  moreover have "cached e co ?k i w'" if "unat i * unat ?cs < length (body_bytes ps)" for i
  proof -
    from all that have "i \<in> fst ` set (ws_written ws)" and f: "file_of e ?st ?k w2 i \<noteq> None"
      by (simp_all add: all_written_def)
    with rl have "\<exists>c. chunk_of e w4 (?k, i) = Some c \<and> status c = Complete" by blast
    with f show ?thesis by (simp add: cached_def fo pf(3))
  qed
  moreover have "accepted e (ws_piped ws) w'"
    using put_object_stream_accepted [OF up'] rl by (simp add: accepted_def pf)
  moreover have "object_of e w' ?k = Some m" "db_good e w'" using put_object_cell [OF g4 put] by auto
  ultimately show ?thesis using m ps by (intro conjI exI [of _ "ws_piped ws"] exI [of _ m]) (auto simp: not_less [symmetric])
qed

text \<open>C7. An upload that returns an etag has been accepted by upstream as the very pieces of the body,
  and leaves the object in the cache: every chunk of the contents has a complete entry and its
  bytes in its file, and the recorded metadata are the etag, the length and the type of the
  request. This holds whatever calls fail on the way.\<close>

theorem put_caches:
  assumes "db_good e w" and "hash_ok e" and "chunk_size co \<noteq> 0" and "length (body_bytes ps) < 2 ^ 64"
    and "write_and_cache_object e co bucket key ps len ctype w = (Inr tag, w')"
  shows "db_good e w' \<and> (\<exists>bs. ps = map Inr bs \<and> accepted e bs w') \<and>
    coherent e co (object_key bucket key) (body_bytes ps) w' \<and>
    (\<forall>i. length (body_bytes ps) \<le> unat i * unat (chunk_size co) \<or> cached e co (object_key bucket key) i w') \<and>
    (\<exists>m. object_of e w' (object_key bucket key) = Some m \<and> etag m = Some tag \<and> content_length m = len \<and> content_type m = ctype)"
  by (rule put_establishes [OF assms])

text \<open>What an upload that upstream did not accept leaves of the database.\<close>

definition nothing_registered :: "env \<Rightarrow> world \<Rightarrow> world \<Rightarrow> bool" where
  "nothing_registered e w w' \<longleftrightarrow>
     (\<forall>x. chunk_of e w' x = chunk_of e w x \<or> chunk_of e w' x = None) \<and>
     (\<forall>k. object_of e w' k = object_of e w k \<or> object_of e w' k = None)"

lemma same_state_views:
  "same_state w w' \<Longrightarrow> chunk_of e w' = chunk_of e w" "same_state w w' \<Longrightarrow> object_of e w' = object_of e w"
  "same_state w w' \<Longrightarrow> db_good e w' = db_good e w"
  by (auto simp: same_state_def chunk_of_def object_of_def db_good_def fun_eq_iff)

lemma join_same_state:
  "io_join (put_object_stream e pc bucket key bs len ctype) w = (r, w') \<Longrightarrow> same_state w w'"
  by (erule io_join_cases) (auto dest: requests_same_state(3))

lemma keeps_file_frame:
  "keeps (file_frame w) (io_for (\<lambda>idx. io_ignore (delete_chunk_file e st k idx)) idxs)"
  by (intro keeps_intros keeps_files(2)) (simp add: file_frame_def)

lemma errors_finish: "errors_only (finish_put e co bucket key len ctype ws)"
  unfolding finish_put_def Let_def by (intro errors_intros)

text \<open>The end of an upload whose body or chunk files failed.\<close>

lemma finish_put_broken:
  assumes "ws_error ws \<noteq> None" and "finish_put e co bucket key len ctype ws w = (r, w')"
  shows "(\<exists>m. r = Inl (Error m)) \<and> chunk_of e w' = chunk_of e w \<and> object_of e w' = object_of e w"
proof -
  let ?up = "io_join (put_object_stream e (proxy co) bucket key (ws_piped ws) len ctype)"
  let ?clean = "io_for (\<lambda>idx. io_ignore (delete_chunk_file e (co_storage co) (object_key bucket key) idx)) (u64_range_incl 0 (ws_idx ws))"
  from assms(1) obtain m where m: "ws_error ws = Some m" by auto
  obtain r1 w1 where u: "?up w = (r1, w1)" by (cases "?up w")
  have i: "io_ignore ?up w = (Inr (), w1)"
    using errors_upload u by (rule ignore_apply)
  obtain r2 w2 where c: "?clean w1 = (r2, w2)" by (cases "?clean w1")
  from keepsD [OF keeps_file_frame _ c] have f: "file_frame w1 w2" by simp
  have "errors_only ?clean" by (intro errors_intros)
  moreover have "finish_put e co bucket key len ctype ws w = io_seq ?clean (io_fail (Error m)) w1"
    by (simp add: finish_put_def Let_def m io_seq_apply i)
  ultimately have "(\<exists>s. r = Inl (Error s)) \<and> w' = w2"
    using assms(2) c by (cases r2) (auto simp: io_seq_apply dest: errors_onlyD)
  with same_state_views [OF join_same_state [OF u]] file_frame_views [OF f] show ?thesis by simp
qed

text \<open>The end of an upload whose body was written: upstream has accepted it, or nothing changes.\<close>

lemma finish_put_accepted:
  assumes "ws_error ws = None" and "finish_put e co bucket key len ctype ws w = (r, w')"
  shows "accepted e (ws_piped ws) w' \<or> (\<exists>m. r = Inl (Error m)) \<and> same_state w w'"
proof -
  let ?k = "object_key bucket key"
  let ?up = "io_join (put_object_stream e (proxy co) bucket key (ws_piped ws) len ctype)"
  obtain r3 w3 where up: "?up w = (r3, w3)" by (cases "?up w")
  show ?thesis
  proof (cases r3)
    case (Inl f)
    with errors_onlyD [OF errors_upload] up obtain m where "f = Error m" by blast
    with Inl assms up have "r = Inl (Error m) \<and> w' = w3" by (auto simp: finish_put_def Let_def io_bind_apply)
    with join_same_state [OF up] show ?thesis by simp
  next
    case (Inr tag)
    with up have up': "put_object_stream e (proxy co) bucket key (ws_piped ws) len ctype w = (Inr tag, w3)"
      by (cases rule: io_join_cases) auto
    let ?rest = "io_seq (io_for (\<lambda>(idx, sz). io_bind (now_secs e) (\<lambda>now.
         put_chunk e ?k idx \<lparr>size_of = ucast sz, last_accessed_at = now, status = Complete\<rparr>)) (ws_written ws))
       (io_bind (now_secs e) (\<lambda>now. io_seq (put_object e ?k
          \<lparr>content_length = len, content_type = ctype, etag = Some tag, last_modified = now\<rparr>) (io_return tag)))"
    have keep: "keeps (\<lambda>u. sent u = sent w3) ?rest"
      unfolding put_chunk_def put_object_def
      by (intro keeps_intros keeps_attempt) (auto simp: keeps_def)
    from assms up Inr have run: "?rest w3 = (r, w')"
      by (simp add: finish_put_def Let_def io_bind_Inr)
    have "sent w' = sent w3" by (rule keepsD [OF keep _ run]) simp
    with put_object_stream_accepted [OF up'] show ?thesis by (auto simp: accepted_def)
  qed
qed

text \<open>C6. Write-through: whatever fails, an upload either was accepted by upstream in full, or returns
  an error and registers nothing, neither a chunk nor an object.\<close>

theorem put_registers_accepted_only:
  assumes "db_good e w" and "hash_ok e" and "chunk_size co \<noteq> 0" and "length (body_bytes ps) < 2 ^ 64"
    and "write_and_cache_object e co bucket key ps len ctype w = (r, w')"
  shows "(\<exists>bs. ps = map Inr bs \<and> accepted e bs w') \<or> (\<exists>m. r = Inl (Error m)) \<and> nothing_registered e w w'"
proof -
  let ?k = "object_key bucket key"
  obtain ws w2 where eq: "write_and_cache_object e co bucket key ps len ctype w = finish_put e co bucket key len ctype ws w2"
    and g2: "db_good e w2"
    and ch: "\<forall>x. chunk_of e w2 x = chunk_of e w x \<or> fst x = ?k \<and> chunk_of e w2 x = None"
    and ob: "\<forall>k'. object_of e w2 k' = object_of e w k' \<or> k' = ?k \<and> object_of e w2 k' = None"
    and ps: "ws_error ws = None \<longrightarrow> ps = map Inr (ws_piped ws)"
    using put_loops [OF assms(1-4), of bucket key len ctype] by (elim exE conjE) rule
  from eq assms(5) have fin: "finish_put e co bucket key len ctype ws w2 = (r, w')" by simp
  have nr: "nothing_registered e w u" if "chunk_of e u = chunk_of e w2" "object_of e u = object_of e w2" for u
    unfolding nothing_registered_def that using ch ob by (intro conjI allI) metis+
  show ?thesis
  proof (cases "ws_error ws = None")
    case False
    from finish_put_broken [OF False fin] nr show ?thesis by blast
  next
    case ok: True
    from finish_put_accepted [OF ok fin] show ?thesis
    proof
      assume "accepted e (ws_piped ws) w'"
      with ps ok show ?thesis by blast
    next
      assume "(\<exists>m. r = Inl (Error m)) \<and> same_state w2 w'"
      with nr [of w'] same_state_views [of w2 w'] show ?thesis by simp
    qed
  qed
qed


lemma upload_succeeds:
  assumes "faultless e" and "rx_closed e = (\<lambda>_. False)" and "hash_ok e" and "db_good e w"
    and "chunk_size co \<noteq> 0" and "length (concat bs) < 2 ^ 64"
    and "\<And>u. fst (put_object_stream e (proxy co) bucket key bs len ctype u) = Inr tag"
  shows "fst (write_and_cache_object e co bucket key (map Inr bs) len ctype w) = Inr tag"
proof -
  let ?k = "object_key bucket key"
  have small: "length (body_bytes (map Inr bs)) < 2 ^ 64" using assms(6) by simp
  obtain ws w2 where eq: "write_and_cache_object e co bucket key (map Inr bs) len ctype w = finish_put e co bucket key len ctype ws w2"
    and g2: "db_good e w2"
    and ps: "ws_error ws = None \<longrightarrow> (map Inr bs :: piece_stream) = map Inr (ws_piped ws)"
    and calm: "disk_calm e \<and> rx_closed e = (\<lambda>_. False) \<and> (\<forall>p \<in> set (map Inr bs :: piece_stream). \<not> isl p) \<longrightarrow> ws_error ws = None"
    using put_loops [OF assms(4,3,5) small, of bucket key len ctype] by (elim exE conjE) rule
  from calm assms(2) faultless_calm [OF assms(1)] have ok: "ws_error ws = None" by auto
  from mp [OF ps ok] have bs: "ws_piped ws = bs" by (simp add: inj_map_eq_map inj_def)
  from assms(7) [of w2] obtain w3 where up: "put_object_stream e (proxy co) bucket key bs len ctype w2 = (Inr tag, w3)"
    by (cases "put_object_stream e (proxy co) bucket key bs len ctype w2") auto
  from requests_same_state(3) [OF up] g2 have g3: "db_good e w3" by (simp add: same_state_views(3))
  let ?reg = "io_for (\<lambda>(idx, sz). io_bind (now_secs e) (\<lambda>now.
       put_chunk e ?k idx \<lparr>size_of = ucast sz, last_accessed_at = now, status = Complete\<rparr>)) (ws_written ws)"
  obtain r4 w4 where reg: "?reg w3 = (r4, w4)" by (cases "?reg w3")
  from register_loop [OF g3 reg] assms(1) have "r4 = Inr ()" by (cases r4) auto
  moreover have "io_join (put_object_stream e (proxy co) bucket key bs len ctype) w2 = (Inr tag, w3)"
    by (simp add: io_join_def up)
  moreover have "\<exists>u'. put_object e ?k m u = (Inr (), u')" for m u
    using put_object_cases [of e ?k m u] assms(1) by metis
  then have "fst (io_seq (put_object e ?k m) (io_return tag) u) = Inr tag" for m u
    by (metis fst_conv io_return_apply io_seq_Inr)
  ultimately show ?thesis using reg
    by (simp add: eq finish_put_def Let_def ok bs io_bind_Inr io_seq_Inr)
qed


text \<open>C32. With a chunk size of 0, which no check rejects, the loop that cuts the body into chunks
  never ends: an upload with a body hangs.\<close>

theorem put_zero_chunk_size_hangs:
  assumes "faultless e" and "hash_ok e" and "db_good e w" and "chunk_size co = 0"
    and "object_of e w (object_key bucket key) = None" and "rx_closed e = (\<lambda>_. False)"
  shows "fst (write_and_cache_object e co bucket key (Inr b # ps) len ctype w) = Inl Diverges"
proof -
  let ?k = "object_key bucket key"
  have "get_object e ?k w = (Inr None, w\<lparr>ticks := Suc (ticks w)\<rparr>)"
    using get_object_cases [OF assms(3), of ?k] assms(1,5) by metis
  then have "\<exists>w1. io_ignore (drop_cache_for_object e co bucket key) w = (Inr (), w1)"
    by (auto simp: drop_cache_for_object_def Let_def io_ignore_def io_bind_apply io_try_apply io_seq_apply
        delete_object_def faultless_attempt [OF assms(1)])
  then obtain w1 where d: "io_ignore (drop_cache_for_object e co bucket key) w = (Inr (), w1)" ..
  have "drain_chunks e (co_storage co) ?k 0 ws u = None" for ws u
    by (rule drain_chunks_zero [OF faultless_calm [OF assms(1)]]) (simp add: fs_good_def assms(2))
  with d assms(4,6) show ?thesis
    by (simp add: write_and_cache_object_def Let_def io_seq_Inr io_bind_apply pipe_send_def diverging_def)
qed

text \<open>C5. A read that follows an upload returns the uploaded bytes from the cache: after the HEAD,
  which reports the etag of the upload and the length recorded, nothing is sent upstream for
  them.\<close>

theorem read_your_writes:
  assumes "faultless e" and "hash_ok e" and "db_good e w" and "chunk_size co \<noteq> 0"
    and "length (body_bytes ps) + unat (chunk_size co) \<le> 2 ^ 64"
    and "write_and_cache_object e co bucket key ps len ctype w = (Inr tag, w1)"
    and "unat len = length (body_bytes ps)"
    and "reports e (proxy co) bucket key (body_bytes ps) (Some tag)"
    and "read_range e co bucket key start end0 w1 = (Inr s, w2)"
  shows "\<exists>got w3. run_stream e co bucket key s w2 = (Inr got, w3) \<and> sent w3 = sent w2 \<and>
    collect [] got = Inr (slice (unat start) (unat end0) (body_bytes ps))"
proof -
  let ?k = "object_key bucket key"
  have "length (body_bytes ps) < 2 ^ 64" using assms(5) unat_pos [OF assms(4)] by linarith
  from put_establishes [OF assms(3,2,4) this assms(6)] obtain m where g: "db_good e w1"
    and c: "coherent e co ?k (body_bytes ps) w1"
    and all: "\<And>i. unat i * unat (chunk_size co) < length (body_bytes ps) \<Longrightarrow> cached e co ?k i w1"
    and m: "object_of e w1 ?k = Some m" "etag m = Some tag" "content_length m = len"
    by (force simp: not_le [symmetric])
  have "unat (content_length m) = length (body_bytes ps)" using m(3) assms(7) by simp
  from read_served [OF assms(1,2) g c m(1,2) this assms(8,5) all assms(9)] show ?thesis .
qed

text \<open>C31. An upload whose chunks were written but which upstream does not accept registers nothing,
  and leaves every chunk file on disk, where no entry of the database leads to it.\<close>

theorem failed_upload_leaves_files:
  assumes "disk_calm e" and "rx_closed e = (\<lambda>_. False)" and "hash_ok e" and "db_good e w"
    and "chunk_size co \<noteq> 0" and "length (concat bs) < 2 ^ 64"
    and "write_and_cache_object e co bucket key (map Inr bs) len ctype w = (Inl f, w')"
    and "\<not> accepted e bs w'"
  shows "nothing_registered e w w' \<and>
    (\<forall>i. length (concat bs) \<le> unat i * unat (chunk_size co) \<or>
       file_of e (co_storage co) (object_key bucket key) w' i = Some (chunk_slice (chunk_size co) (concat bs) (unat i)))"
proof -
  let ?k = "object_key bucket key" and ?st = "co_storage co"
  have small: "length (body_bytes (map Inr bs)) < 2 ^ 64" using assms(6) by simp
  obtain ws w2 where eq: "write_and_cache_object e co bucket key (map Inr bs) len ctype w = finish_put e co bucket key len ctype ws w2"
    and ch: "\<forall>x. chunk_of e w2 x = chunk_of e w x \<or> fst x = ?k \<and> chunk_of e w2 x = None"
    and ob: "\<forall>k'. object_of e w2 k' = object_of e w k' \<or> k' = ?k \<and> object_of e w2 k' = None"
    and ps: "ws_error ws = None \<longrightarrow> (map Inr bs :: piece_stream) = map Inr (ws_piped ws)"
    and all: "ws_error ws = None \<longrightarrow> all_written e ?st ?k (chunk_size co) (body_bytes (map Inr bs)) (ws_written ws) w2"
    and calm: "disk_calm e \<and> rx_closed e = (\<lambda>_. False) \<and> (\<forall>p \<in> set (map Inr bs :: piece_stream). \<not> isl p) \<longrightarrow> ws_error ws = None"
    using put_loops [OF assms(4,3,5) small, of bucket key len ctype] by (elim exE conjE) rule
  from calm assms(1,2) have ok: "ws_error ws = None" by auto
  from mp [OF ps ok] have bs: "ws_piped ws = bs" by (simp add: inj_map_eq_map inj_def)
  from eq assms(7) have "finish_put e co bucket key len ctype ws w2 = (Inl f, w')" by simp
  from finish_put_accepted [OF ok this] assms(8) bs have same: "same_state w2 w'" by blast
  note v = same_state_views [OF same]
  have "nothing_registered e w w'"
    unfolding nothing_registered_def v using ch ob by (intro conjI allI) metis+
  moreover have "file_of e ?st ?k w' i = Some (chunk_slice (chunk_size co) (concat bs) (unat i))"
    if "unat i * unat (chunk_size co) < length (concat bs)" for i
    using that mp [OF all ok] same by (simp add: all_written_def file_of_def same_state_def)
  ultimately show ?thesis by (auto simp: not_le [symmetric])
qed

section \<open>The properties on a concrete upload\<close>

text \<open>Seven bytes in two pieces, cut into chunks of three.\<close>

abbreviation a_body :: piece_stream where
  "a_body \<equiv> map Inr [''abcd'', ''efg'']"

lemma rx_open: "rx_closed an_env = (\<lambda>_. False)"
  by (simp add: sample_env_def)

lemma upstream_takes_put:
  "fst (put_object_stream an_env sample_proxy ''b'' ''k'' bs len ctype u) = Inr ''put''"
  using sample_put [of "''k''" one_object "''b''" bs len ctype u] by auto

lemma a_put:
  obtains w1 where "write_and_cache_object an_env a_coordinator ''b'' ''k'' a_body 7 None empty_world = (Inr ''put'', w1)"
proof -
  have "fst (write_and_cache_object an_env a_coordinator ''b'' ''k'' a_body 7 None empty_world) = Inr ''put''"
    by (rule upload_succeeds [OF sample_faultless rx_open sample_hash_ok empty_db_good]) (simp_all add: upstream_takes_put)
  with that show thesis by (cases "write_and_cache_object an_env a_coordinator ''b'' ''k'' a_body 7 None empty_world") auto
qed


lemma put_caches_witness:
  "\<exists>w1. write_and_cache_object an_env a_coordinator ''b'' ''k'' a_body 7 None empty_world = (Inr ''put'', w1) \<and>
     coherent an_env a_coordinator (object_key ''b'' ''k'') ''abcdefg'' w1 \<and>
     cached an_env a_coordinator (object_key ''b'' ''k'') 2 w1"
proof -
  obtain w1 where p: "write_and_cache_object an_env a_coordinator ''b'' ''k'' a_body 7 None empty_world = (Inr ''put'', w1)"
    by (rule a_put)
  from put_caches [OF empty_db_good sample_hash_ok _ _ p] p show ?thesis
    by (auto intro!: exI [of _ w1] dest!: spec [of _ 2])
qed

lemma put_registers_accepted_only_witness:
  "\<exists>r w1. write_and_cache_object an_env a_coordinator ''b'' ''k'' [Inr ''abcd'', Inl ''reset''] 7 None empty_world = (r, w1) \<and>
     (\<exists>m. r = Inl (Error m)) \<and> nothing_registered an_env empty_world w1"
proof -
  obtain r w1 where p: "write_and_cache_object an_env a_coordinator ''b'' ''k'' [Inr ''abcd'', Inl ''reset''] 7 None empty_world = (r, w1)"
    by (cases "write_and_cache_object an_env a_coordinator ''b'' ''k'' [Inr ''abcd'', Inl ''reset''] 7 None empty_world")
  have "[Inr ''abcd'', Inl ''reset''] \<noteq> (map Inr bs :: piece_stream)" for bs
    by (cases bs; cases "tl bs") auto
  with put_registers_accepted_only [OF empty_db_good sample_hash_ok _ _ p] p show ?thesis by auto
qed


lemma put_zero_chunk_size_hangs_witness:
  "fst (write_and_cache_object an_env (sample_coordinator 0) ''b'' ''k'' [Inr ''abcd''] 4 None empty_world) = Inl Diverges"
  by (rule put_zero_chunk_size_hangs [OF sample_faultless sample_hash_ok empty_db_good _ _ rx_open]) simp_all

text \<open>A read after the upload of what upstream has.\<close>

definition put_objects :: bucket_contents where
  "put_objects p = (if p = ''/b/k'' then Some (''abcdefg'', ''put'') else None)"

lemma put_objects_k: "put_objects (sample_path ''b'' ''k'') = Some (''abcdefg'', ''put'')"
  by (simp add: put_objects_def sample_path_def trim_start_matches_def)

lemma read_your_writes_witness:
  "\<exists>w1 s w2 got w3.
     write_and_cache_object (sample_env put_objects) a_coordinator ''b'' ''k'' a_body 7 None empty_world = (Inr ''put'', w1) \<and>
     read_range (sample_env put_objects) a_coordinator ''b'' ''k'' 1 5 w1 = (Inr s, w2) \<and>
     run_stream (sample_env put_objects) a_coordinator ''b'' ''k'' s w2 = (Inr got, w3) \<and> sent w3 = sent w2 \<and>
     collect [] got = Inr ''bcde''"
proof -
  let ?e = "sample_env put_objects"
  have "fst (put_object_stream ?e (proxy a_coordinator) ''b'' ''k'' bs len ctype u) = Inr ''put''" for bs len ctype u
    using sample_put [of "''k''" put_objects "''b''" bs len ctype u] by auto
  then have "fst (write_and_cache_object ?e a_coordinator ''b'' ''k'' a_body 7 None empty_world) = Inr ''put''"
    by (intro upload_succeeds [OF sample_faultless _ sample_hash_ok empty_db_good]) (simp_all add: sample_env_def)
  then obtain w1 where p: "write_and_cache_object ?e a_coordinator ''b'' ''k'' a_body 7 None empty_world = (Inr ''put'', w1)"
    by (cases "write_and_cache_object ?e a_coordinator ''b'' ''k'' a_body 7 None empty_world") auto
  have cs: "chunk_size a_coordinator \<noteq> 0" by simp
  have "length (body_bytes a_body) < 2 ^ 64" by simp
  from put_establishes [OF empty_db_good sample_hash_ok cs this p] have g1: "db_good ?e w1" by simp
  have "\<exists>w0. head_object ?e (proxy a_coordinator) ''b'' ''k'' w1 = (Inr (the_meta\<lparr>etag := Some ''put''\<rparr>), w0)"
    by (simp add: sample_head put_objects_k the_meta_def)
  with refresh_returns [OF sample_faultless sample_hash_ok g1 cs] obtain w2 where
    g: "get_object_metadata ?e a_coordinator ''b'' ''k'' w1 = (Inr (the_meta\<lparr>etag := Some ''put''\<rparr>), w2)" by blast
  then have r: "read_range ?e a_coordinator ''b'' ''k'' 1 5 w1 = (Inr (ChunkReads (read_plan 3 7 1 5)), w2)"
    by (simp add: read_range_def io_bind_apply the_meta_def word_le_nat_alt)
  have "reports ?e sample_proxy ''b'' ''k'' ''abcdefg'' (Some ''put'')"
    by (rule sample_reports [where objs = put_objects]) (simp_all add: put_objects_k)
  with read_your_writes [OF sample_faultless sample_hash_ok empty_db_good cs _ p _ _ r] p r
  show ?thesis by (auto simp: slice_def)
qed

text \<open>An upstream that cannot be reached.\<close>

definition down_env :: env where
  "down_env = an_env\<lparr>upstream := \<lambda>_ _. Inl ''connection refused''\<rparr>"

lemma down_ok: "disk_calm down_env" "rx_closed down_env = (\<lambda>_. False)" "hash_ok down_env" "db_good down_env empty_world"
  using sample_hash_ok [of one_object] empty_db_good [of one_object]
  by (simp_all add: down_env_def disk_calm_def rx_open hash_ok_def db_good_def codec_ok_def)

lemma failed_upload_leaves_files_witness:
  "\<exists>f w1. write_and_cache_object down_env a_coordinator ''b'' ''k'' a_body 7 None empty_world = (Inl f, w1) \<and>
     nothing_registered down_env empty_world w1 \<and>
     file_of down_env (co_storage a_coordinator) (object_key ''b'' ''k'') w1 2 = Some ''g''"
proof -
  have na: "\<not> accepted down_env bs w" for bs w by (simp add: accepted_def down_env_def)
  obtain r w1 where p: "write_and_cache_object down_env a_coordinator ''b'' ''k'' a_body 7 None empty_world = (r, w1)"
    by (cases "write_and_cache_object down_env a_coordinator ''b'' ''k'' a_body 7 None empty_world")
  have cs: "chunk_size a_coordinator \<noteq> 0" and "length (body_bytes a_body) < 2 ^ 64" by simp_all
  with put_establishes [OF down_ok(4,3) cs _, of a_body] p na obtain f where "r = Inl f" by (cases r) blast+
  with p have p': "write_and_cache_object down_env a_coordinator ''b'' ''k'' (map Inr [''abcd'', ''efg'']) 7 None empty_world = (Inl f, w1)"
    by simp
  have "length (concat [''abcd'', ''efg'']) < 2 ^ 64" by simp
  from failed_upload_leaves_files [OF down_ok cs this p' na]
  have "nothing_registered down_env empty_world w1"
    and "length (concat [''abcd'', ''efg'']) \<le> unat (2 :: u64) * unat (chunk_size a_coordinator) \<or>
      file_of down_env (co_storage a_coordinator) (object_key ''b'' ''k'') w1 2 =
      Some (chunk_slice (chunk_size a_coordinator) (concat [''abcd'', ''efg'']) (unat (2 :: u64)))" by blast+
  with p' show ?thesis by (simp add: chunk_slice_def)
qed

end
