(* ===== verification/Single_Flight.thy ===== *)
theory Single_Flight
  imports Writes
begin

text \<open>
  \<open>ensure_chunk_cached\<close> of \<open>src/cache/mod.rs\<close>, which loads a chunk into the cache so that of
  several tasks that need it at the same time one downloads it and the others wait.

  The tasks run concurrently on the world and on the map \<open>active_downloads\<close>.  A step of the
  relation below is what one task does between two points at which another task may run: every
  access to the map and every use of a channel is a step of its own.  The download, which has many
  such points, is one step of its own too, between a step that announces it and one that publishes
  its outcome.  A future may be dropped while it waits: then its locals, the sender of its channel
  among them, are dropped, and nothing else of the function runs.
\<close>

section \<open>The state\<close>

datatype download_status = Pending | Finished | Failed string

text \<open>
  A \<open>watch\<close> channel: its value, and whether its sender is still there.  A sender sends at most once
  and never \<open>Pending\<close>, so a receiver made while the value was \<open>Pending\<close> has seen no change as long
  as it is \<open>Pending\<close>.  \<open>ch_entry\<close> is the entry of the map the receiver was put under; the code keeps
  it in no place, and no step looks at it.
\<close>

record channel =
  ch_value :: download_status
  ch_open :: bool
  ch_entry :: string

text \<open>Where a task is in the function; the numbers are channels.\<close>

datatype task =
    Starting
  | Looking
  | Registering
  | Waiting nat
  | Fetching nat
  | Publishing nat "string + unit"
  | Removing nat "string + unit"
  | Returned "string + unit"
  | Dropped

record flight =
  fl_world :: world
  fl_active :: "string \<rightharpoonup> nat"
  fl_channels :: "channel list"
  fl_tasks :: "nat \<Rightarrow> task"

text \<open>The arguments of the call a task makes.\<close>

record chunk_request =
  cq_bucket :: string
  cq_key :: string
  cq_db_key :: string
  cq_idx :: u64
  cq_start :: u64
  cq_end :: u64

definition cq_entry :: "chunk_request \<Rightarrow> string" where
  "cq_entry q = chunk_db_key (cq_db_key q) (cq_idx q)"

definition flight_start :: "world \<Rightarrow> flight" where
  "flight_start w = \<lparr>fl_world = w, fl_active = Map.empty, fl_channels = [], fl_tasks = (\<lambda>_. Starting)\<rparr>"

section \<open>The steps\<close>

text \<open>The fast path: a complete chunk is touched, and there is nothing to load.\<close>

definition fast_path :: "env \<Rightarrow> chunk_request \<Rightarrow> bool act" where
  "fast_path e q =
     io_bind (io_try (get_chunk e (cq_db_key q) (cq_idx q))) (\<lambda>r.
       case r of
         Inr (Some chunk_meta) \<Rightarrow>
           if status chunk_meta = Complete then
             io_bind (now_secs e) (\<lambda>now.
             io_seq (io_ignore (put_chunk e (cq_db_key q) (cq_idx q) (chunk_meta\<lparr>last_accessed_at := now\<rparr>)))
              (io_return True))
           else io_return False
       | _ \<Rightarrow> io_return False)"

definition load_chunk :: "env \<Rightarrow> coordinator \<Rightarrow> chunk_request \<Rightarrow> unit act" where
  "load_chunk e co q =
     download_and_cache_chunk e co (cq_bucket q) (cq_key q) (cq_db_key q) (cq_idx q) (cq_start q) (cq_end q)"

text \<open>What the owner of a channel sends, and what a waiter makes of it.\<close>

definition sent_value :: "string + unit \<Rightarrow> download_status" where
  "sent_value r = (case r of Inl m \<Rightarrow> Failed m | Inr _ \<Rightarrow> Finished)"

definition waiter_result :: "download_status \<Rightarrow> (string + unit) option" where
  "waiter_result v =
     (case v of Pending \<Rightarrow> None | Finished \<Rightarrow> Some (Inr ())
      | Failed m \<Rightarrow> Some (Inl (''Single flight chunk download failed: '' @ m)))"

definition set_task :: "nat \<Rightarrow> task \<Rightarrow> flight \<Rightarrow> flight" where
  "set_task i t s = s\<lparr>fl_tasks := (fl_tasks s)(i := t)\<rparr>"

definition on_channel :: "nat \<Rightarrow> (channel \<Rightarrow> channel) \<Rightarrow> flight \<Rightarrow> flight" where
  "on_channel c f s = s\<lparr>fl_channels := (fl_channels s)[c := f (fl_channels s ! c)]\<rparr>"

inductive sf_step :: "env \<Rightarrow> coordinator \<Rightarrow> (nat \<Rightarrow> chunk_request) \<Rightarrow> nat \<Rightarrow> flight \<Rightarrow> flight \<Rightarrow> bool"
  for e co cq where
  fast: "sf_step e co cq i s (set_task i (if hit then Returned (Inr ()) else Looking) (s\<lparr>fl_world := w'\<rparr>))"
    if "fl_tasks s i = Starting" and "fast_path e (cq i) (fl_world s) = (Inr hit, w')"
| subscribe: "sf_step e co cq i s (set_task i (Waiting c) s)"
    if "fl_tasks s i = Looking" and "fl_active s (cq_entry (cq i)) = Some c"
| absent: "sf_step e co cq i s (set_task i Registering s)"
    if "fl_tasks s i = Looking" and "fl_active s (cq_entry (cq i)) = None"
| lost_race: "sf_step e co cq i s (set_task i Looking s)"
    if "fl_tasks s i = Registering" and "fl_active s (cq_entry (cq i)) = Some c"
| register: "sf_step e co cq i s
      (set_task i (Fetching (length (fl_channels s)))
        (s\<lparr>fl_active := (fl_active s)(cq_entry (cq i) \<mapsto> length (fl_channels s)),
           fl_channels := fl_channels s @ [\<lparr>ch_value = Pending, ch_open = True, ch_entry = cq_entry (cq i)\<rparr>]\<rparr>))"
    if "fl_tasks s i = Registering" and "fl_active s (cq_entry (cq i)) = None"
| fetched: "sf_step e co cq i s (set_task i (Publishing c (Inr ())) (s\<lparr>fl_world := w'\<rparr>))"
    if "fl_tasks s i = Fetching c" and "load_chunk e co (cq i) (fl_world s) = (Inr (), w')"
| failed: "sf_step e co cq i s (set_task i (Publishing c (Inl m)) (s\<lparr>fl_world := w'\<rparr>))"
    if "fl_tasks s i = Fetching c" and "load_chunk e co (cq i) (fl_world s) = (Inl (Error m), w')"
| panicked: "sf_step e co cq i s
      (set_task i Dropped (on_channel c (ch_open_update (\<lambda>_. False)) (s\<lparr>fl_world := w'\<rparr>)))"
    if "fl_tasks s i = Fetching c" and "load_chunk e co (cq i) (fl_world s) = (Inl (Panic m), w')"
| publish: "sf_step e co cq i s (set_task i (Removing c r) (on_channel c (ch_value_update (\<lambda>_. sent_value r)) s))"
    if "fl_tasks s i = Publishing c r"
| remove: "sf_step e co cq i s
      (set_task i (Returned r) (on_channel c (ch_open_update (\<lambda>_. False))
        (s\<lparr>fl_active := (fl_active s)(cq_entry (cq i) := None)\<rparr>)))"
    if "fl_tasks s i = Removing c r"
| changed: "sf_step e co cq i s (set_task i (Returned r) s)"
    if "fl_tasks s i = Waiting c" and "waiter_result (ch_value (fl_channels s ! c)) = Some r"
| closed: "sf_step e co cq i s (set_task i Looking s)"
    if "fl_tasks s i = Waiting c" and "ch_value (fl_channels s ! c) = Pending" and "\<not> ch_open (fl_channels s ! c)"
| drop_waiting: "sf_step e co cq i s (set_task i Dropped s)"
    if "fl_tasks s i = Waiting c"
| drop_fetching: "sf_step e co cq i s (set_task i Dropped (on_channel c (ch_open_update (\<lambda>_. False)) s))"
    if "fl_tasks s i = Fetching c"

definition sf_next :: "env \<Rightarrow> coordinator \<Rightarrow> (nat \<Rightarrow> chunk_request) \<Rightarrow> flight \<Rightarrow> flight \<Rightarrow> bool" where
  "sf_next e co cq s s' \<longleftrightarrow> (\<exists>i. sf_step e co cq i s s')"

section \<open>Invariants of steps\<close>

text \<open>What every step keeps holds after any number of steps.\<close>

locale step_invariant =
  fixes step :: "'s \<Rightarrow> 's \<Rightarrow> bool" and inv :: "'s \<Rightarrow> bool"
  assumes kept: "step s s' \<Longrightarrow> inv s \<Longrightarrow> inv s'"
begin

lemma steps_kept: "step\<^sup>*\<^sup>* s s' \<Longrightarrow> inv s \<Longrightarrow> inv s'"
  by (induction rule: rtranclp_induct) (auto intro: kept)

end

section \<open>The bookkeeping of the channels\<close>

text \<open>The channel whose sender a task holds, and the one it waits on.\<close>

fun owned :: "task \<Rightarrow> nat option" where
  "owned (Fetching c) = Some c"
| "owned (Publishing c r) = Some c"
| "owned (Removing c r) = Some c"
| "owned _ = None"

definition channels_ok :: "(nat \<Rightarrow> chunk_request) \<Rightarrow> flight \<Rightarrow> bool" where
  "channels_ok cq s \<longleftrightarrow>
     (\<forall>k c. fl_active s k = Some c \<longrightarrow> c < length (fl_channels s) \<and> ch_entry (fl_channels s ! c) = k) \<and>
     (\<forall>i c. fl_tasks s i = Waiting c \<longrightarrow> c < length (fl_channels s) \<and> ch_entry (fl_channels s ! c) = cq_entry (cq i)) \<and>
     (\<forall>i c. owned (fl_tasks s i) = Some c \<longrightarrow> c < length (fl_channels s) \<and> fl_active s (cq_entry (cq i)) = Some c \<and>
        ch_open (fl_channels s ! c)) \<and>
     (\<forall>i j c. owned (fl_tasks s i) = Some c \<longrightarrow> owned (fl_tasks s j) = Some c \<longrightarrow> i = j) \<and>
     (\<forall>i c. fl_tasks s i = Fetching c \<or> (\<exists>r. fl_tasks s i = Publishing c r) \<longrightarrow> ch_value (fl_channels s ! c) = Pending)"

lemma owned_Some: "owned t = Some c \<longleftrightarrow> t = Fetching c \<or> (\<exists>r. t = Publishing c r) \<or> (\<exists>r. t = Removing c r)"
  by (cases t) auto

lemma channels_okD:
  assumes "channels_ok cq s"
  shows "fl_active s k = Some c \<Longrightarrow> c < length (fl_channels s) \<and> ch_entry (fl_channels s ! c) = k"
    and "fl_tasks s i = Waiting c \<Longrightarrow> c < length (fl_channels s) \<and> ch_entry (fl_channels s ! c) = cq_entry (cq i)"
    and "owned (fl_tasks s i) = Some c \<Longrightarrow> c < length (fl_channels s) \<and> fl_active s (cq_entry (cq i)) = Some c \<and>
      ch_open (fl_channels s ! c)"
    and "owned (fl_tasks s i) = Some c \<Longrightarrow> owned (fl_tasks s j) = Some c \<Longrightarrow> i = j"
    and "fl_tasks s i = Fetching c \<Longrightarrow> ch_value (fl_channels s ! c) = Pending"
    and "fl_tasks s i = Publishing c r \<Longrightarrow> ch_value (fl_channels s ! c) = Pending"
  using assms unfolding channels_ok_def by blast+

lemma channels_okI:
  assumes "\<And>k c. fl_active s k = Some c \<Longrightarrow> c < length (fl_channels s) \<and> ch_entry (fl_channels s ! c) = k"
    and "\<And>i c. fl_tasks s i = Waiting c \<Longrightarrow> c < length (fl_channels s) \<and> ch_entry (fl_channels s ! c) = cq_entry (cq i)"
    and "\<And>i c. owned (fl_tasks s i) = Some c \<Longrightarrow> c < length (fl_channels s) \<and> fl_active s (cq_entry (cq i)) = Some c \<and>
      ch_open (fl_channels s ! c)"
    and "\<And>i j c. owned (fl_tasks s i) = Some c \<Longrightarrow> owned (fl_tasks s j) = Some c \<Longrightarrow> i = j"
    and "\<And>i c r. fl_tasks s i = Fetching c \<or> fl_tasks s i = Publishing c r \<Longrightarrow> ch_value (fl_channels s ! c) = Pending"
  shows "channels_ok cq s"
  using assms unfolding channels_ok_def by blast

text \<open>The updates a step is made of.\<close>

lemma task_at [simp]: "fl_tasks (set_task i t s) j = (if j = i then t else fl_tasks s j)"
  and task_frame [simp]: "fl_world (set_task i t s) = fl_world s" "fl_active (set_task i t s) = fl_active s"
    "fl_channels (set_task i t s) = fl_channels s"
  by (simp_all add: set_task_def)

lemma channel_at [simp]:
    "fl_channels (on_channel c f s) ! d = (if d = c \<and> c < length (fl_channels s) then f (fl_channels s ! c) else fl_channels s ! d)"
  and channel_frame [simp]: "fl_world (on_channel c f s) = fl_world s" "fl_active (on_channel c f s) = fl_active s"
    "fl_tasks (on_channel c f s) = fl_tasks s" "length (fl_channels (on_channel c f s)) = length (fl_channels s)"
  by (cases "c < length (fl_channels s)"; auto simp: on_channel_def nth_list_update list_update_beyond)+

lemma channels_of_frame [simp]:
  "fl_channels (on_channel c f (s\<lparr>fl_world := w\<rparr>)) = fl_channels (on_channel c f s)"
  "fl_channels (on_channel c f (s\<lparr>fl_active := a\<rparr>)) = fl_channels (on_channel c f s)"
  by (simp_all add: on_channel_def)

lemma channels_ok_world [simp]: "channels_ok cq (s\<lparr>fl_world := w\<rparr>) = channels_ok cq s"
  by (simp add: channels_ok_def)

lemma channels_ok_task:
  assumes "channels_ok cq s"
    and "\<And>c. t = Waiting c \<Longrightarrow> c < length (fl_channels s) \<and> ch_entry (fl_channels s ! c) = cq_entry (cq i)"
    and "\<And>c. owned t = Some c \<Longrightarrow> c < length (fl_channels s) \<and> fl_active s (cq_entry (cq i)) = Some c \<and>
      ch_open (fl_channels s ! c) \<and> (\<forall>j. j \<noteq> i \<longrightarrow> owned (fl_tasks s j) \<noteq> Some c)"
    and "\<And>c r. t = Fetching c \<or> t = Publishing c r \<Longrightarrow> ch_value (fl_channels s ! c) = Pending"
  shows "channels_ok cq (set_task i t s)"
proof (rule channels_okI, goal_cases)
  case (1 k c)
  with channels_okD(1) [OF assms(1)] show ?case by simp
next
  case (2 j c)
  with channels_okD(2) [OF assms(1), of j c] assms(2) [of c] show ?case by (cases "j = i") simp_all
next
  case (3 j c)
  with channels_okD(3) [OF assms(1), of j c] assms(3) [of c] show ?case by (cases "j = i") simp_all
next
  case (4 j k c)
  with channels_okD(4) [OF assms(1), of j c k] assms(3) [of c] show ?case
    by (cases "j = i"; cases "k = i") auto
next
  case (5 j c r)
  with channels_okD(5,6) [OF assms(1), of j c] assms(4) [of c r] show ?case by (cases "j = i") auto
qed

lemma channels_ok_quit:
  "channels_ok cq s \<Longrightarrow> t \<in> {Looking, Registering, Dropped, Returned r} \<Longrightarrow> channels_ok cq (set_task i t s)"
  by (erule channels_ok_task) auto

lemma channels_ok_close:
  assumes "channels_ok cq s" and "\<And>j. owned (fl_tasks s j) \<noteq> Some c"
  shows "channels_ok cq (on_channel c (ch_open_update (\<lambda>_. False)) s)"
  by (rule channels_okI) (use assms(2) channels_okD [OF assms(1)] in auto)

lemma channels_ok_send:
  assumes "channels_ok cq s" and "\<And>j r. fl_tasks s j \<noteq> Fetching c \<and> fl_tasks s j \<noteq> Publishing c r"
  shows "channels_ok cq (on_channel c (ch_value_update (\<lambda>_. v)) s)"
  by (rule channels_okI) (use assms(2) channels_okD [OF assms(1)] in auto)

lemma channels_ok_unmap:
  assumes "channels_ok cq s" and "\<And>j c. owned (fl_tasks s j) = Some c \<Longrightarrow> cq_entry (cq j) \<noteq> k"
  shows "channels_ok cq (s\<lparr>fl_active := (fl_active s)(k := None)\<rparr>)"
  by (rule channels_okI) (use assms(2) channels_okD [OF assms(1)] in \<open>auto split: if_splits\<close>)

lemma channels_ok_map:
  assumes "channels_ok cq s" and "fl_active s k = None"
  shows "channels_ok cq (s\<lparr>fl_active := (fl_active s)(k \<mapsto> length (fl_channels s)),
    fl_channels := fl_channels s @ [\<lparr>ch_value = Pending, ch_open = True, ch_entry = k\<rparr>]\<rparr>)"
proof (rule channels_okI, goal_cases)
  case (1 k' c)
  with channels_okD(1) [OF assms(1), of k' c] show ?case by (auto simp: nth_append split: if_splits)
next
  case (2 i c)
  with channels_okD(2) [OF assms(1), of i c] show ?case by (auto simp: nth_append)
next
  case (3 i c)
  with channels_okD(3) [OF assms(1), of i c] assms(2) show ?case by (auto simp: nth_append)
next
  case (4 i j c)
  with channels_okD(4) [OF assms(1), of i c j] show ?case by simp
next
  case (5 i c r)
  then have "owned (fl_tasks s i) = Some c" by auto
  with 5 channels_okD(3) [OF assms(1) this] channels_okD(5,6) [OF assms(1)] show ?case by (auto simp: nth_append)
qed

text \<open>The owner of a channel keeps it, or gives it up.\<close>

lemma task_channel: "set_task i t (on_channel c f s) = on_channel c f (set_task i t s)"
  and task_active: "set_task i t (s\<lparr>fl_active := m\<rparr>) = (set_task i t s)\<lparr>fl_active := m\<rparr>"
  by (simp_all add: set_task_def on_channel_def)

lemma channels_ok_disown:
  assumes "channels_ok cq s" and "owned (fl_tasks s i) = Some c" and "owned (fl_tasks s j) = Some c'" and "j \<noteq> i"
  shows "c' \<noteq> c \<and> cq_entry (cq j) \<noteq> cq_entry (cq i)"
  using channels_okD(3) [OF assms(1,2)] channels_okD(3,4) [OF assms(1,3)] assms(2,4) by auto

lemma channels_ok_own:
  assumes "channels_ok cq s" and "owned (fl_tasks s i) = Some c" and "owned t = Some c"
    and "\<And>r. t \<noteq> Fetching c" and "\<And>r. t = Publishing c r \<Longrightarrow> fl_tasks s i = Fetching c"
  shows "channels_ok cq (set_task i t s)"
proof (rule channels_ok_task [OF assms(1)])
  fix d
  show "t = Waiting d \<Longrightarrow> d < length (fl_channels s) \<and> ch_entry (fl_channels s ! d) = cq_entry (cq i)"
    using assms(3) by auto
  show "owned t = Some d \<Longrightarrow> d < length (fl_channels s) \<and> fl_active s (cq_entry (cq i)) = Some d \<and>
      ch_open (fl_channels s ! d) \<and> (\<forall>j. j \<noteq> i \<longrightarrow> owned (fl_tasks s j) \<noteq> Some d)"
    using assms(2,3) channels_okD(3) [OF assms(1,2)] channels_ok_disown [OF assms(1,2)] by auto
  show "t = Fetching d \<or> t = Publishing d r \<Longrightarrow> ch_value (fl_channels s ! d) = Pending" for r
    using assms(3-5) channels_okD(5) [OF assms(1), of i d] by auto
qed

lemma channels_ok_step:
  assumes "sf_step e co cq i s s'" and "channels_ok cq s"
  shows "channels_ok cq s'"
  using assms(1)
proof cases
  case (fast hit w')
  with assms(2) show ?thesis by (cases hit) (auto intro!: channels_ok_quit)
next
  case (subscribe c)
  with assms(2) channels_okD(1) [OF assms(2)] show ?thesis by (auto intro!: channels_ok_task)
next
  case register
  let ?n = "length (fl_channels s)"
  have "owned (fl_tasks s j) \<noteq> Some ?n" for j
    using channels_okD(3) [OF assms(2), of j ?n] by blast
  with register channels_ok_map [OF assms(2)] show ?thesis by (auto intro!: channels_ok_task)
next
  case (fetched c w')
  then have own: "owned (fl_tasks s i) = Some c" by simp
  show ?thesis
    unfolding fetched(1) by (rule channels_ok_own) (use own fetched(2) assms(2) in simp_all)
next
  case (failed c m w')
  then have own: "owned (fl_tasks s i) = Some c" by simp
  show ?thesis
    unfolding failed(1) by (rule channels_ok_own) (use own failed(2) assms(2) in simp_all)
next
  case (panicked c m w')
  then have own: "owned (fl_tasks s i) = Some c" by simp
  show ?thesis
    unfolding panicked(1) task_channel
    by (intro channels_ok_close channels_ok_quit) (use own assms(2) channels_ok_disown [OF assms(2) own] in auto)
next
  case (publish c r)
  then have own: "owned (fl_tasks s i) = Some c" by simp
  show ?thesis
    unfolding publish(1) task_channel
  proof (rule channels_ok_send)
    show "channels_ok cq (set_task i (Removing c r) s)"
      by (rule channels_ok_own) (use own assms(2) in simp_all)
    show "fl_tasks (set_task i (Removing c r) s) j \<noteq> Fetching c \<and> fl_tasks (set_task i (Removing c r) s) j \<noteq> Publishing c r'"
      for j r' using channels_ok_disown [OF assms(2) own, of j c] by (cases "j = i") (auto simp: owned_Some)
  qed
next
  case (remove c r)
  then have own: "owned (fl_tasks s i) = Some c" by simp
  have "channels_ok cq (set_task i (Returned r) s)" using assms(2) by (rule channels_ok_quit) simp
  moreover have "cq_entry (cq j) \<noteq> cq_entry (cq i)" if "owned (fl_tasks (set_task i (Returned r) s) j) = Some d" for j d
    using channels_ok_disown [OF assms(2) own, of j d] that by (auto split: if_splits)
  ultimately have "channels_ok cq ((set_task i (Returned r) s)\<lparr>fl_active := (fl_active s)(cq_entry (cq i) := None)\<rparr>)"
    using channels_ok_unmap [of cq "set_task i (Returned r) s" "cq_entry (cq i)"] by simp
  then show ?thesis
    unfolding remove(1) task_channel task_active
    by (rule channels_ok_close) (use channels_ok_disown [OF assms(2) own] in auto)
next
  case (drop_fetching c)
  then have own: "owned (fl_tasks s i) = Some c" by simp
  show ?thesis
    unfolding drop_fetching(1) task_channel
    by (intro channels_ok_close channels_ok_quit) (use own assms(2) channels_ok_disown [OF assms(2) own] in auto)
qed (use assms(2) in \<open>auto intro!: channels_ok_quit\<close>)

interpretation bookkeeping: step_invariant "sf_next e co cq" "channels_ok cq" for e co cq
  by unfold_locales (auto simp: sf_next_def intro: channels_ok_step)

lemma channels_ok_start: "channels_ok cq (flight_start w)"
  by (auto simp: channels_ok_def flight_start_def)

section \<open>What the tasks make of the cache\<close>

definition loaded :: "env \<Rightarrow> world \<Rightarrow> string \<times> u64 \<Rightarrow> bool" where
  "loaded e w x \<longleftrightarrow> (\<exists>c. chunk_of e w x = Some c \<and> status c = Complete)"

definition loads_more :: "env \<Rightarrow> world \<Rightarrow> world \<Rightarrow> bool" where
  "loads_more e w w' \<longleftrightarrow> db_good e w' \<and> (\<forall>x. loaded e w x \<longrightarrow> loaded e w' x)"

lemma loads_more_trans: "loads_more e u v \<Longrightarrow> loads_more e v w \<Longrightarrow> loads_more e u w"
  by (simp add: loads_more_def)

lemma loads_more_frame:
  "loads_more e u (w\<lparr>ticks := n\<rparr>) = loads_more e u w" "loads_more e u (w\<lparr>sent := l\<rparr>) = loads_more e u w"
  "loads_more e u (w\<lparr>files := f\<rparr>) = loads_more e u w"
  by (simp_all add: loads_more_def loaded_def)

lemma loads_put:
  assumes "loads_more e u w" and "put_chunk e k i c w = (r, w')" and "status c = Complete"
  shows "loads_more e u w' \<and> (r = Inr () \<longrightarrow> loaded e w' (k, i))"
  using put_chunk_cell [OF _ assms(2)] assms(1,3) by (auto simp: loads_more_def loaded_def)

lemma keeps_loads_put: "status c = Complete \<Longrightarrow> keeps (loads_more e u) (put_chunk e k i c)"
  by (rule keepsI) (blast dest: loads_put)

lemma same_db_loads: "same_db w w' \<Longrightarrow> loads_more e u w \<Longrightarrow> loads_more e u w'"
  by (auto simp: loads_more_def loaded_def same_db_views)

lemma keeps_loads:
  shows "keeps (loads_more e u) (get_chunk e k i)" "keeps (loads_more e u) (get_object_range_stream e pc bucket key rh)"
    "keeps (loads_more e u) (write_chunk e st k i d)"
proof -
  show "keeps (loads_more e u) (get_chunk e k i)"
    unfolding get_chunk_def by (intro keeps_intros keeps_attempt) (simp add: loads_more_frame)
  show "keeps (loads_more e u) (get_object_range_stream e pc bucket key rh)"
    by (intro keeps_requests) (simp add: loads_more_frame)
  show "keeps (loads_more e u) (write_chunk e st k i d)"
    by (intro keeps_files) (simp add: loads_more_def loaded_def)
qed

lemma fast_path_loads:
  assumes "db_good e w" and "fast_path e q w = (Inr hit, w')"
  shows "loads_more e w w' \<and> (hit \<longrightarrow> loaded e w' (cq_db_key q, cq_idx q))"
proof -
  let ?x = "(cq_db_key q, cq_idx q)"
  have start: "loads_more e w w" using assms(1) by (simp add: loads_more_def)
  have "keeps (loads_more e w) (fast_path e q)"
    unfolding fast_path_def by (intro keeps_intros keeps_loads keeps_loads_put) simp
  from keepsD [OF this start assms(2)] have more: "loads_more e w w'" .
  have "loaded e w ?x" if hit
    using get_chunk_cases [OF assms(1), of "cq_db_key q" "cq_idx q"] assms(2) that
    by cases (auto simp: fast_path_def io_bind_apply io_try_apply loaded_def split: option.splits if_splits)
  with more show ?thesis by (auto simp: loads_more_def)
qed

lemma fast_path_hit:
  assumes "cq_db_key q = k" and "cq_idx q = i" and "get_chunk e k i w = (Inr (Some c), w1)" and "status c = Complete"
  shows "\<exists>w'. fast_path e q w = (Inr True, w')"
proof -
  let ?put = "io_ignore (put_chunk e k i (c\<lparr>last_accessed_at := max 0 (clock e (ticks w1))\<rparr>))"
  obtain w' where "?put w1 = (Inr (), w')" using ignore_returns [OF errors_metadata(5)] by (metis prod.collapse)
  with assms show ?thesis by (simp add: fast_path_def io_bind_apply io_try_apply io_seq_apply)
qed

lemma load_chunk_loads:
  assumes "db_good e w" and "load_chunk e co q w = (r, w')"
  shows "loads_more e w w' \<and> (r = Inr () \<longrightarrow> loaded e w' (cq_db_key q, cq_idx q))"
proof -
  have start: "loads_more e w w" using assms(1) by (simp add: loads_more_def)
  have "keeps (loads_more e w) (load_chunk e co q)"
    unfolding load_chunk_def download_and_cache_chunk_def Let_def
    by (intro keeps_intros keeps_loads keeps_loads_put) simp
  note more = keepsD [OF this start assms(2)]
  have "loaded e w' (cq_db_key q, cq_idx q)" if "r = Inr ()"
  proof -
    from assms(2) that obtain c u where "put_chunk e (cq_db_key q) (cq_idx q) c u = (Inr (), w')" "status c = Complete"
      by (auto simp: load_chunk_def download_and_cache_chunk_def Let_def elim!: io_bind_okE io_seq_okE split: if_splits)
    from put_chunk_cases [of e "cq_db_key q" "cq_idx q" c u] this db_good_codec [OF assms(1)] show ?thesis
      by cases (auto simp: loaded_def table_views)
  qed
  with more show ?thesis by simp
qed

text \<open>
  What a task or a channel says was loaded is in the cache.
\<close>

fun claims_loaded :: "task \<Rightarrow> bool" where
  "claims_loaded (Publishing c (Inr u)) = True"
| "claims_loaded (Removing c (Inr u)) = True"
| "claims_loaded (Returned (Inr u)) = True"
| "claims_loaded _ = False"

definition claims_ok :: "env \<Rightarrow> (nat \<Rightarrow> chunk_request) \<Rightarrow> flight \<Rightarrow> bool" where
  "claims_ok e cq s \<longleftrightarrow> channels_ok cq s \<and> db_good e (fl_world s) \<and>
     (\<forall>i. claims_loaded (fl_tasks s i) \<longrightarrow> loaded e (fl_world s) (cq_db_key (cq i), cq_idx (cq i))) \<and>
     (\<forall>c k idx. c < length (fl_channels s) \<longrightarrow> ch_value (fl_channels s ! c) = Finished \<longrightarrow>
        ch_entry (fl_channels s ! c) = chunk_db_key k idx \<longrightarrow> loaded e (fl_world s) (k, idx))"

lemma claims_okD:
  assumes "claims_ok e cq s"
  shows "channels_ok cq s" "db_good e (fl_world s)"
    and "claims_loaded (fl_tasks s i) \<Longrightarrow> loaded e (fl_world s) (cq_db_key (cq i), cq_idx (cq i))"
    and "c < length (fl_channels s) \<Longrightarrow> ch_value (fl_channels s ! c) = Finished \<Longrightarrow>
      ch_entry (fl_channels s ! c) = chunk_db_key k idx \<Longrightarrow> loaded e (fl_world s) (k, idx)"
  using assms unfolding claims_ok_def by blast+

text \<open>A step of one task that leaves the values of the channels alone.\<close>

lemma claims_ok_task:
  assumes "claims_ok e cq s" and "channels_ok cq s'" and "loads_more e (fl_world s) (fl_world s')"
    and "\<And>j. j \<noteq> i \<Longrightarrow> fl_tasks s' j = fl_tasks s j"
    and "claims_loaded (fl_tasks s' i) \<Longrightarrow> loaded e (fl_world s') (cq_db_key (cq i), cq_idx (cq i))"
    and "\<And>c. c < length (fl_channels s') \<Longrightarrow> ch_value (fl_channels s' ! c) = Finished \<Longrightarrow>
      (c < length (fl_channels s) \<and> ch_value (fl_channels s ! c) = Finished \<and> ch_entry (fl_channels s' ! c) = ch_entry (fl_channels s ! c)) \<or>
      (ch_entry (fl_channels s' ! c) = cq_entry (cq i) \<and> loaded e (fl_world s') (cq_db_key (cq i), cq_idx (cq i)))"
  shows "claims_ok e cq s'"
  unfolding claims_ok_def
proof (intro conjI allI impI)
  show "channels_ok cq s'" "db_good e (fl_world s')" using assms(2,3) by (auto simp: loads_more_def)
  show "loaded e (fl_world s') (cq_db_key (cq j), cq_idx (cq j))" if "claims_loaded (fl_tasks s' j)" for j
    using that assms(3-5) claims_okD(3) [OF assms(1), of j] by (cases "j = i") (auto simp: loads_more_def)
  show "loaded e (fl_world s') (k, idx)"
    if "c < length (fl_channels s')" "ch_value (fl_channels s' ! c) = Finished" "ch_entry (fl_channels s' ! c) = chunk_db_key k idx"
    for c k idx
    using assms(6) [OF that(1,2)] that(3) claims_okD(4) [OF assms(1), of c k idx] assms(3)
    by (auto simp: loads_more_def cq_entry_def)
qed

lemma claims_ok_step:
  assumes "sf_step e co cq i s s'" and "claims_ok e cq s"
  shows "claims_ok e cq s'"
proof -
  note [simp] = claims_okD(2) [OF assms(2)]
  have ch: "channels_ok cq s'" using channels_ok_step [OF assms(1)] claims_okD(1) [OF assms(2)] .
  have same: "loads_more e (fl_world s) (fl_world s)" by (simp add: loads_more_def)
  note step = claims_ok_task [OF assms(2) ch, of i]
  from assms(1) show ?thesis
  proof cases
    case (fast hit w')
    from fast_path_loads [OF _ this(3)] fast show ?thesis by (intro step) auto
  next
    case (fetched c w')
    from load_chunk_loads [OF _ this(3)] fetched show ?thesis by (intro step) auto
  next
    case (failed c m w')
    from load_chunk_loads [OF _ this(3)] failed show ?thesis by (intro step) auto
  next
    case (panicked c m w')
    from load_chunk_loads [OF _ this(3)] panicked show ?thesis by (intro step) (auto split: if_splits)
  next
    case register
    with same show ?thesis by (intro step) (auto simp: nth_append less_Suc_eq)
  next
    case (publish c r)
    then have own: "owned (fl_tasks s i) = Some c" by simp
    have "c < length (fl_channels s)" "ch_entry (fl_channels s ! c) = cq_entry (cq i)"
      using channels_okD(3) [OF claims_okD(1) [OF assms(2)] own] channels_okD(1) [OF claims_okD(1) [OF assms(2)]] by blast+
    with publish same claims_okD(3) [OF assms(2), of i] show ?thesis
      by (intro step) (auto simp: sent_value_def split: if_splits sum.splits)
  next
    case (remove c r)
    with same claims_okD(3) [OF assms(2), of i] show ?thesis by (intro step) (cases r; auto split: if_splits)+
  next
    case (changed c r)
    with channels_okD(2) [OF claims_okD(1) [OF assms(2)], of i c]
      claims_okD(4) [OF assms(2), of c "cq_db_key (cq i)" "cq_idx (cq i)"] same show ?thesis
      by (intro step) (auto simp: waiter_result_def cq_entry_def split: download_status.splits)
  qed (rule step; use same in \<open>auto split: if_splits\<close>)+
qed

interpretation claims: step_invariant "sf_next e co cq" "claims_ok e cq" for e co cq
  by unfold_locales (auto simp: sf_next_def intro: claims_ok_step)

lemma claims_ok_start: "db_good e w \<Longrightarrow> claims_ok e cq (flight_start w)"
  using channels_ok_start by (simp add: claims_ok_def) (simp add: flight_start_def)

section \<open>Live and dead channels\<close>

text \<open>
  A sender that is there is held by a task; a channel is closed without a value only when the
  future that held the sender was dropped.
\<close>

definition senders_ok :: "(nat \<Rightarrow> chunk_request) \<Rightarrow> flight \<Rightarrow> bool" where
  "senders_ok cq s \<longleftrightarrow> channels_ok cq s \<and>
     (\<forall>c < length (fl_channels s). ch_open (fl_channels s ! c) \<longrightarrow> (\<exists>j. owned (fl_tasks s j) = Some c)) \<and>
     (\<forall>i c r. fl_tasks s i = Removing c r \<longrightarrow> ch_value (fl_channels s ! c) \<noteq> Pending) \<and>
     ((\<forall>j. fl_tasks s j \<noteq> Dropped) \<longrightarrow>
       (\<forall>c < length (fl_channels s). ch_open (fl_channels s ! c) \<or> ch_value (fl_channels s ! c) \<noteq> Pending))"

lemma senders_okD:
  assumes "senders_ok cq s"
  shows "channels_ok cq s"
    and "c < length (fl_channels s) \<Longrightarrow> ch_open (fl_channels s ! c) \<Longrightarrow> \<exists>j. owned (fl_tasks s j) = Some c"
    and "fl_tasks s i = Removing c r \<Longrightarrow> ch_value (fl_channels s ! c) \<noteq> Pending"
    and "(\<And>j. fl_tasks s j \<noteq> Dropped) \<Longrightarrow> c < length (fl_channels s) \<Longrightarrow>
      ch_open (fl_channels s ! c) \<or> ch_value (fl_channels s ! c) \<noteq> Pending"
  using assms unfolding senders_ok_def by blast+

text \<open>A step that keeps the channels and what task \<open>i\<close> owns.\<close>

lemma senders_ok_task:
  assumes "senders_ok cq s" and "channels_ok cq s'" and "fl_channels s' = fl_channels s"
    and "\<And>j. j \<noteq> i \<Longrightarrow> fl_tasks s' j = fl_tasks s j" and "owned (fl_tasks s' i) = owned (fl_tasks s i)"
    and "fl_tasks s i \<noteq> Dropped" and "\<And>c r. fl_tasks s' i \<noteq> Removing c r"
  shows "senders_ok cq s'"
  unfolding senders_ok_def
proof (intro conjI allI impI)
  show "channels_ok cq s'" by (fact assms(2))
  show "\<exists>j. owned (fl_tasks s' j) = Some c" if "c < length (fl_channels s')" "ch_open (fl_channels s' ! c)" for c
    using senders_okD(2) [OF assms(1), of c] that assms(3-5) by metis
  show "ch_value (fl_channels s' ! c) \<noteq> Pending" if "fl_tasks s' j = Removing c r" for j c r
    using senders_okD(3) [OF assms(1), of j c r] that assms(3,4,7) by (cases "j = i") auto
  show "ch_open (fl_channels s' ! c) \<or> ch_value (fl_channels s' ! c) \<noteq> Pending"
    if "\<forall>j. fl_tasks s' j \<noteq> Dropped" "c < length (fl_channels s')" for c
    using senders_okD(4) [OF assms(1), of c] that assms(3,4,6) by metis
qed

text \<open>A step that drops the sender of a channel.\<close>

lemma senders_ok_close:
  assumes "senders_ok cq s" and "channels_ok cq s'" and "owned (fl_tasks s i) = Some c"
    and "fl_channels s' = fl_channels (on_channel c (ch_open_update (\<lambda>_. False)) s)"
    and "\<And>j. fl_tasks s' j = (if j = i then t else fl_tasks s j)" and "t = Dropped \<or> (\<exists>r. t = Returned r \<and> (\<exists>r'. fl_tasks s i = Removing c r'))"
  shows "senders_ok cq s'"
  unfolding senders_ok_def
proof (intro conjI allI impI)
  show "channels_ok cq s'" by (fact assms(2))
  show "\<exists>j. owned (fl_tasks s' j) = Some d" if "d < length (fl_channels s')" "ch_open (fl_channels s' ! d)" for d
  proof -
    from that assms(4) have "d < length (fl_channels s)" "d \<noteq> c" "ch_open (fl_channels s ! d)" by (auto split: if_splits)
    with senders_okD(2) [OF assms(1)] obtain j where j: "owned (fl_tasks s j) = Some d" by blast
    with \<open>d \<noteq> c\<close> assms(3) have "j \<noteq> i" by auto
    with j assms(5) show ?thesis by auto
  qed
  show "ch_value (fl_channels s' ! d) \<noteq> Pending" if "fl_tasks s' j = Removing d r" for j d r
    using senders_okD(3) [OF assms(1), of j d r] that assms(4-6) by (auto split: if_splits)
  show "ch_open (fl_channels s' ! d) \<or> ch_value (fl_channels s' ! d) \<noteq> Pending"
    if "\<forall>j. fl_tasks s' j \<noteq> Dropped" "d < length (fl_channels s')" for d
  proof -
    from that(1) assms(5,6) obtain r' where r: "fl_tasks s i = Removing c r'" by metis
    have "fl_tasks s j \<noteq> Dropped" for j using that(1) assms(5) r by (cases "j = i") (auto, metis)
    with senders_okD(3) [OF assms(1) r] senders_okD(4) [OF assms(1), of d] that(2) assms(4) show ?thesis
      by (auto split: if_splits)
  qed
qed

lemma senders_ok_register:
  assumes "senders_ok cq s" and "channels_ok cq s'" and "fl_tasks s i = Registering"
    and "fl_channels s' = fl_channels s @ [\<lparr>ch_value = Pending, ch_open = True, ch_entry = k\<rparr>]"
    and "\<And>j. fl_tasks s' j = (if j = i then Fetching (length (fl_channels s)) else fl_tasks s j)"
  shows "senders_ok cq s'"
  unfolding senders_ok_def
proof (intro conjI allI impI)
  show "channels_ok cq s'" by (fact assms(2))
  show "\<exists>j. owned (fl_tasks s' j) = Some c" if c: "c < length (fl_channels s')" "ch_open (fl_channels s' ! c)" for c
  proof (cases "c = length (fl_channels s)")
    case True
    with assms(5) have "owned (fl_tasks s' i) = Some c" by simp
    then show ?thesis ..
  next
    case False
    with c assms(4) have "c < length (fl_channels s)" "ch_open (fl_channels s ! c)" by (auto simp: nth_append)
    with senders_okD(2) [OF assms(1)] obtain j where j: "owned (fl_tasks s j) = Some c" by blast
    with assms(3) have "j \<noteq> i" by auto
    with j assms(5) show ?thesis by auto
  qed
  show "ch_value (fl_channels s' ! c) \<noteq> Pending" if r: "fl_tasks s' j = Removing c r" for j c r
  proof -
    from r assms(5) have j: "fl_tasks s j = Removing c r" by (auto split: if_splits)
    then have "c < length (fl_channels s)" using channels_okD(3) [OF senders_okD(1) [OF assms(1)], of j c] by simp
    with senders_okD(3) [OF assms(1) j] assms(4) show ?thesis by (simp add: nth_append)
  qed
  show "ch_open (fl_channels s' ! c) \<or> ch_value (fl_channels s' ! c) \<noteq> Pending"
    if "\<forall>j. fl_tasks s' j \<noteq> Dropped" "c < length (fl_channels s')" for c
  proof -
    have "fl_tasks s j \<noteq> Dropped" for j using that(1) assms(3,5) by (cases "j = i") (simp, metis)
    with senders_okD(4) [OF assms(1), of c] that(2) assms(4) show ?thesis by (auto simp: nth_append)
  qed
qed

lemma senders_ok_publish:
  assumes "senders_ok cq s" and "channels_ok cq s'" and "fl_tasks s i = Publishing c r" and "v \<noteq> Pending"
    and "fl_channels s' = fl_channels (on_channel c (ch_value_update (\<lambda>_. v)) s)"
    and "\<And>j. fl_tasks s' j = (if j = i then Removing c r else fl_tasks s j)"
  shows "senders_ok cq s'"
proof -
  have own: "owned (fl_tasks s' j) = owned (fl_tasks s j)" for j using assms(3,6) by simp
  have len: "c < length (fl_channels s)"
    using channels_okD(3) [OF senders_okD(1) [OF assms(1)], of i c] assms(3) by simp
  show ?thesis
    unfolding senders_ok_def own
  proof (intro conjI allI impI)
    show "channels_ok cq s'" by (fact assms(2))
    show "\<exists>j. owned (fl_tasks s j) = Some d" if "d < length (fl_channels s')" "ch_open (fl_channels s' ! d)" for d
      using senders_okD(2) [OF assms(1), of d] that assms(5) by (auto split: if_splits)
    show "ch_value (fl_channels s' ! d) \<noteq> Pending" if "fl_tasks s' j = Removing d q" for j d q
      using senders_okD(3) [OF assms(1), of j d q] that assms(4-6) len by (auto split: if_splits)
    show "ch_open (fl_channels s' ! d) \<or> ch_value (fl_channels s' ! d) \<noteq> Pending"
      if "\<forall>j. fl_tasks s' j \<noteq> Dropped" "d < length (fl_channels s')" for d
    proof -
      have "fl_tasks s j \<noteq> Dropped" for j using that(1) assms(3,6) by (cases "j = i") (simp, metis)
      with senders_okD(4) [OF assms(1), of d] that(2) assms(4,5) show ?thesis by (auto split: if_splits)
    qed
  qed
qed

lemma senders_ok_step:
  assumes "sf_step e co cq i s s'" and "senders_ok cq s"
  shows "senders_ok cq s'"
proof -
  have ch: "channels_ok cq s'" using channels_ok_step [OF assms(1) senders_okD(1) [OF assms(2)]] .
  note parts = senders_ok_task [OF assms(2) ch, of i] senders_ok_close [OF assms(2) ch, of i]
    senders_ok_register [OF assms(2) ch, of i] senders_ok_publish [OF assms(2) ch, of i]
  from assms(1) show ?thesis
  proof cases
    case register
    then show ?thesis by (intro parts(3)) auto
  next
    case (panicked c m w')
    then show ?thesis by (intro parts(2) [where t = Dropped]) auto
  next
    case (publish c r)
    then show ?thesis by (intro parts(4)) (auto simp: sent_value_def split: sum.splits)
  next
    case (remove c r)
    then show ?thesis by (intro parts(2) [where t = "Returned r"]) auto
  next
    case (drop_fetching c)
    then show ?thesis by (intro parts(2) [where t = Dropped]) auto
  qed (rule parts(1); auto)+
qed

interpretation senders: step_invariant "sf_next e co cq" "senders_ok cq" for e co cq
  by unfold_locales (auto simp: sf_next_def intro: senders_ok_step)

lemma senders_ok_start: "senders_ok cq (flight_start w)"
  using channels_ok_start by (simp add: senders_ok_def) (simp add: flight_start_def)

text \<open>The channel of an entry whose download was dropped.\<close>

definition dead_entry :: "(nat \<Rightarrow> chunk_request) \<Rightarrow> string \<Rightarrow> nat \<Rightarrow> flight \<Rightarrow> bool" where
  "dead_entry cq k c s \<longleftrightarrow> channels_ok cq s \<and> fl_active s k = Some c \<and>
     ch_value (fl_channels s ! c) = Pending \<and> \<not> ch_open (fl_channels s ! c)"

definition spinning :: "nat \<Rightarrow> task \<Rightarrow> bool" where
  "spinning c t \<longleftrightarrow> t = Looking \<or> t = Registering \<or> t = Waiting c \<or> t = Dropped"

lemma dead_entry_step:
  assumes "sf_step e co cq i s s'" and "dead_entry cq k c s"
  shows "dead_entry cq k c s' \<and>
    (\<forall>j. cq_entry (cq j) = k \<longrightarrow> spinning c (fl_tasks s j) \<longrightarrow> spinning c (fl_tasks s' j))"
proof -
  from assms(2) have ok: "channels_ok cq s" and act: "fl_active s k = Some c"
    and dead: "ch_value (fl_channels s ! c) = Pending" "\<not> ch_open (fl_channels s ! c)"
    by (auto simp: dead_entry_def)
  have len: "c < length (fl_channels s)" using channels_okD(1) [OF ok act] by blast
  have own: "d \<noteq> c \<and> cq_entry (cq i) \<noteq> k" if "owned (fl_tasks s i) = Some d" for d
    using channels_okD(3) [OF ok that] act dead by auto
  have ok': "channels_ok cq s'" using channels_ok_step [OF assms(1) ok] .
  from assms(1) show ?thesis
  proof cases
    case (panicked d m w')
    with own [of d] act dead len ok' show ?thesis by (auto simp: dead_entry_def spinning_def)
  next
    case (publish d r)
    with own [of d] act dead len ok' show ?thesis by (auto simp: dead_entry_def spinning_def)
  next
    case (remove d r)
    with own [of d] act dead len ok' show ?thesis by (auto simp: dead_entry_def spinning_def)
  next
    case (drop_fetching d)
    with own [of d] act dead len ok' show ?thesis by (auto simp: dead_entry_def spinning_def)
  next
    case (changed d r)
    with act dead len ok' show ?thesis by (auto simp: dead_entry_def spinning_def waiter_result_def)
  qed (use act dead len ok' in \<open>auto simp: dead_entry_def spinning_def nth_append\<close>)
qed

interpretation dead: step_invariant "sf_next e co cq"
  "\<lambda>s. dead_entry cq k c s \<and> (\<forall>j \<in> J. cq_entry (cq j) = k \<and> spinning c (fl_tasks s j))" for e co cq k c J
  by unfold_locales (auto simp: sf_next_def dest: dead_entry_step)

lemma reached:
  assumes "(sf_next e co cq)\<^sup>*\<^sup>* (flight_start w) s"
  shows "channels_ok cq s" "senders_ok cq s" "db_good e w \<Longrightarrow> claims_ok e cq s"
  using bookkeeping.steps_kept [OF assms channels_ok_start] senders.steps_kept [OF assms senders_ok_start]
    claims.steps_kept [OF assms claims_ok_start] by auto

section \<open>Properties\<close>

text \<open>C9. Single flight: of the tasks that need the same chunk at most one downloads it, from the time
  it is registered until its outcome is published and its entry removed, whatever the
  interleaving, the outcomes of the downloads and the futures dropped.\<close>

theorem single_flight:
  assumes "(sf_next e co cq)\<^sup>*\<^sup>* (flight_start w) s"
    and "fl_tasks s i \<in> {Fetching c, Publishing c r, Removing c r}" and "j \<noteq> i"
    and "cq_entry (cq j) = cq_entry (cq i)"
  shows "fl_tasks s j \<notin> {Fetching d, Publishing d r', Removing d r'}"
proof -
  have own: "owned (fl_tasks s i) = Some c" using assms(2) by auto
  from channels_ok_disown [OF reached(1) [OF assms(1)] own, of j d] assms(3,4) show ?thesis by auto
qed

text \<open>C10. A task is told that its chunk is cached only when it is: after any interleaving, the chunk
  of a task that returned without an error, as owner of the download, as waiter or by the fast
  path, has a complete entry in the database.\<close>

theorem ensure_cached_sound:
  assumes "db_good e w" and "(sf_next e co cq)\<^sup>*\<^sup>* (flight_start w) s" and "fl_tasks s i = Returned (Inr ())"
  shows "\<exists>c. chunk_of e (fl_world s) (cq_db_key (cq i), cq_idx (cq i)) = Some c \<and> status c = Complete"
  using claims_okD(3) [OF reached(3) [OF assms(2,1)], of i] assms(3) by (simp add: loaded_def)

text \<open>C17. As long as no future is dropped, no task waits in vain: the channel a task waits on has a
  value for it, or a sender held by a task that downloads this very chunk or publishes the
  outcome.\<close>

theorem waiter_has_downloader:
  assumes "(sf_next e co cq)\<^sup>*\<^sup>* (flight_start w) s" and "\<And>j. fl_tasks s j \<noteq> Dropped" and "fl_tasks s i = Waiting c"
  shows "(\<exists>r. waiter_result (ch_value (fl_channels s ! c)) = Some r) \<or>
    (\<exists>j. cq_entry (cq j) = cq_entry (cq i) \<and> (fl_tasks s j = Fetching c \<or> (\<exists>r. fl_tasks s j = Publishing c r)))"
proof (cases "ch_value (fl_channels s ! c) = Pending")
  case False
  then show ?thesis by (auto simp: waiter_result_def split: download_status.splits)
next
  case True
  note ok = reached(1) [OF assms(1)] and sn = reached(2) [OF assms(1)]
  from channels_okD(2) [OF ok assms(3)] have len: "c < length (fl_channels s)"
    and en: "ch_entry (fl_channels s ! c) = cq_entry (cq i)" by auto
  from senders_okD(4) [OF sn assms(2) len] True have "ch_open (fl_channels s ! c)" by simp
  with senders_okD(2) [OF sn len] obtain j where j: "owned (fl_tasks s j) = Some c" by blast
  then have "fl_active s (cq_entry (cq j)) = Some c" using channels_okD(3) [OF ok] by blast
  from channels_okD(1) [OF ok this] en have "cq_entry (cq j) = cq_entry (cq i)" by simp
  moreover from senders_okD(3) [OF sn, of j c] True j have "fl_tasks s j = Fetching c \<or> (\<exists>r. fl_tasks s j = Publishing c r)"
    by (auto simp: owned_Some)
  ultimately show ?thesis by blast
qed


section \<open>Witnesses\<close>

text \<open>Two tasks need the same chunk of a cache that is empty; the first one registers.\<close>

abbreviation two_calls :: "nat \<Rightarrow> chunk_request" where
  "two_calls \<equiv> \<lambda>_. \<lparr>cq_bucket = ''b'', cq_key = ''k'', cq_db_key = ''b/k'', cq_idx = 0, cq_start = 0, cq_end = 3\<rparr>"

abbreviation next_state :: "flight \<Rightarrow> flight \<Rightarrow> bool" where
  "next_state \<equiv> sf_next an_env a_coordinator two_calls"

abbreviation the_entry :: string where
  "the_entry \<equiv> cq_entry (two_calls 0)"

lemma sample_miss:
  assumes "fl_tasks s i = Starting" and "fl_world s = empty_world\<lparr>ticks := n\<rparr>"
  shows "next_state s (set_task i Looking (s\<lparr>fl_world := empty_world\<lparr>ticks := Suc n\<rparr>\<rparr>))"
proof -
  have "chunk_of an_env empty_world (k, idx) = None" for k idx
    by (simp add: chunk_of_def empty_world_def tbl_get_def)
  then have "fast_path an_env (two_calls i) (fl_world s) = (Inr False, empty_world\<lparr>ticks := Suc n\<rparr>)"
    by (simp add: assms(2) fast_path_def sample_get_chunk empty_db_good io_bind_apply io_try_apply)
  from sf_step.fast [OF assms(1) this, where co = a_coordinator] show ?thesis unfolding sf_next_def if_False by blast
qed

lemma two_started:
  "\<exists>s. next_state\<^sup>*\<^sup>* (flight_start empty_world) s \<and> fl_tasks s = (\<lambda>_. Starting)(0 := Looking, 1 := Looking) \<and>
     fl_active s = Map.empty \<and> fl_channels s = []"
proof -
  let ?s = "flight_start empty_world"
  let ?s1 = "set_task 0 Looking (?s\<lparr>fl_world := empty_world\<lparr>ticks := Suc 0\<rparr>\<rparr>)"
  let ?s2 = "set_task 1 Looking (?s1\<lparr>fl_world := empty_world\<lparr>ticks := Suc (Suc 0)\<rparr>\<rparr>)"
  have "next_state ?s ?s1"
    by (rule sample_miss) (simp_all add: flight_start_def empty_world_def)
  moreover have "next_state ?s1 ?s2"
    by (rule sample_miss) (simp_all add: flight_start_def set_task_def)
  ultimately have "next_state\<^sup>*\<^sup>* ?s ?s2" by auto
  then show ?thesis by (intro exI [of _ ?s2]) (auto simp: flight_start_def set_task_def)
qed

lemma one_fetching:
  "\<exists>s. next_state\<^sup>*\<^sup>* (flight_start empty_world) s \<and> fl_tasks s = (\<lambda>_. Starting)(0 := Fetching 0, 1 := Looking) \<and>
     fl_active s = [the_entry \<mapsto> 0] \<and> fl_channels s = [\<lparr>ch_value = Pending, ch_open = True, ch_entry = the_entry\<rparr>]"
proof -
  from two_started obtain s where s: "next_state\<^sup>*\<^sup>* (flight_start empty_world) s" and t: "fl_tasks s = (\<lambda>_. Starting)(0 := Looking, 1 := Looking)"
    and a: "fl_active s = Map.empty" and c: "fl_channels s = []" by blast
  let ?s1 = "set_task 0 Registering s"
  let ?s2 = "set_task 0 (Fetching 0) (?s1\<lparr>fl_active := [the_entry \<mapsto> 0],
    fl_channels := [\<lparr>ch_value = Pending, ch_open = True, ch_entry = the_entry\<rparr>]\<rparr>)"
  have "next_state s ?s1" unfolding sf_next_def by (rule exI, rule sf_step.absent) (simp_all add: t a)
  moreover have "next_state ?s1 ?s2"
    using sf_step.register [of ?s1 0 two_calls an_env a_coordinator] by (auto simp: sf_next_def a c)
  ultimately have "next_state\<^sup>*\<^sup>* (flight_start empty_world) ?s2" using s by auto
  then show ?thesis by (intro exI [of _ ?s2]) (simp add: fun_eq_iff set_task_def t)
qed

theorem single_flight_witness:
  "\<exists>s. next_state\<^sup>*\<^sup>* (flight_start empty_world) s \<and> fl_tasks s 0 = Fetching 0 \<and> fl_tasks s 1 \<noteq> Fetching 1"
proof -
  from one_fetching obtain s where s: "next_state\<^sup>*\<^sup>* (flight_start empty_world) s"
    and t: "fl_tasks s = (\<lambda>_. Starting)(0 := Fetching 0, 1 := Looking)" by blast
  from single_flight [OF s, of 0 0 undefined 1 1 undefined] s t show ?thesis by (intro exI [of _ s]) simp
qed

theorem waiter_has_downloader_witness:
  "\<exists>s. next_state\<^sup>*\<^sup>* (flight_start empty_world) s \<and> fl_tasks s 1 = Waiting 0 \<and>
     (\<exists>j. fl_tasks s j = Fetching 0 \<or> (\<exists>r. fl_tasks s j = Publishing 0 r))"
proof -
  from one_fetching obtain s where s: "next_state\<^sup>*\<^sup>* (flight_start empty_world) s"
    and t: "fl_tasks s = (\<lambda>_. Starting)(0 := Fetching 0, 1 := Looking)"
    and a: "fl_active s = [the_entry \<mapsto> 0]" and c: "fl_channels s = [\<lparr>ch_value = Pending, ch_open = True, ch_entry = the_entry\<rparr>]"
    by blast
  let ?s1 = "set_task 1 (Waiting 0) s"
  have "next_state s ?s1" unfolding sf_next_def by (rule exI, rule sf_step.subscribe) (simp_all add: t a)
  with s have r: "next_state\<^sup>*\<^sup>* (flight_start empty_world) ?s1" by auto
  from waiter_has_downloader [OF r, of 1 0] t c have "\<exists>j. fl_tasks ?s1 j = Fetching 0 \<or> (\<exists>r. fl_tasks ?s1 j = Publishing 0 r)"
    by (auto simp: waiter_result_def)
  with r show ?thesis by (intro exI [of _ ?s1]) simp
qed


theorem ensure_cached_sound_witness:
  "\<exists>s. next_state\<^sup>*\<^sup>* (flight_start full_cache) s \<and> fl_tasks s 0 = Returned (Inr ()) \<and>
     (\<exists>c. chunk_of an_env (fl_world s) (''b/k'', 0) = Some c)"
proof -
  let ?s = "flight_start full_cache"
  have k: "object_key ''b'' ''k'' = ''b/k''" by (simp add: object_key_def)
  have "chunk_of an_env full_cache (''b/k'', 0) = Some complete_chunk" using full_cache_views(2) [of 0] by (simp add: k)
  then have "get_chunk an_env ''b/k'' 0 full_cache = (Inr (Some complete_chunk), full_cache\<lparr>ticks := Suc (ticks full_cache)\<rparr>)"
    by (simp add: sample_get_chunk full_cache_good)
  from fast_path_hit [OF _ _ this, of "two_calls 0"]
  obtain w' where "fast_path an_env (two_calls 0) (fl_world ?s) = (Inr True, w')"
    by (auto simp: flight_start_def complete_chunk_def)
  then have "next_state ?s (set_task 0 (Returned (Inr ())) (?s\<lparr>fl_world := w'\<rparr>))"
    using sf_step.fast [of ?s 0 an_env two_calls True w' a_coordinator] by (auto simp: sf_next_def flight_start_def)
  then have r: "next_state\<^sup>*\<^sup>* ?s (set_task 0 (Returned (Inr ())) (?s\<lparr>fl_world := w'\<rparr>))" by auto
  from ensure_cached_sound [OF full_cache_good r, of 0] r show ?thesis
    by (intro exI [of _ "set_task 0 (Returned (Inr ())) (?s\<lparr>fl_world := w'\<rparr>)"]) auto
qed

end
