(* ===== verification/Handlers.thy ===== *)
theory Handlers
  imports Writes
begin

text \<open>
  \<open>src/server/handlers.rs\<close>: the handlers of the object routes and the catch-all proxy.  A handler
  returns the head of its answer and, for a GET, the stream of its body, which runs only when
  the head has been returned.
\<close>

section \<open>Ranges and dates\<close>

definition parse_range :: "string \<Rightarrow> u64 \<Rightarrow> (u64 \<times> u64) option" where
  "parse_range range_val file_size =
     (if \<not> starts_with range_val ''bytes='' then None
      else case split_char (CHR ''-'') (drop 6 range_val) of
        [p0, p1] \<Rightarrow>
          (let start_str = trim p0; end_str = trim p1
           in if start_str = [] \<and> end_str = [] then None
              else if start_str = [] then
                Option.bind (parse_u64 end_str) (\<lambda>num. Some (saturating_sub file_size num, file_size))
              else if end_str = [] then
                Option.bind (parse_u64 start_str) (\<lambda>start.
                  if start \<ge> file_size then Some (file_size, file_size) else Some (start, file_size))
              else
                Option.bind (parse_u64 start_str) (\<lambda>start.
                Option.bind (parse_u64 end_str) (\<lambda>end_incl.
                  let fin = min (end_incl + 1) file_size
                  in if start > fin then None else Some (start, fin))))
      | _ \<Rightarrow> None)"

definition format_http_date :: "env \<Rightarrow> int \<Rightarrow> string" where
  "format_http_date e secs = http_date e secs"

section \<open>Parts of the answers\<close>

text \<open>\<open>if let Ok(v) = value.parse() { headers.insert(name, v) }\<close>, and with \<open>unwrap()\<close>.\<close>

definition insert_if_valid :: "env \<Rightarrow> string \<Rightarrow> string option \<Rightarrow> header_map \<Rightarrow> header_map" where
  "insert_if_valid e n value h =
     (case value of None \<Rightarrow> h | Some s \<Rightarrow> (case hv_parse e s of Inl _ \<Rightarrow> h | Inr v \<Rightarrow> hm_insert n v h))"

definition insert_header :: "env \<Rightarrow> string \<Rightarrow> string \<Rightarrow> header_map \<Rightarrow> header_map act" where
  "insert_header e n s h = io_bind (io_unwrap (hv_parse e s)) (\<lambda>v. io_return (hm_insert n v h))"

text \<open>\<open>map_err\<close> of the calls of the coordinator; a panic stays a panic.\<close>

definition or_error :: "(string \<Rightarrow> s3_error) \<Rightarrow> 'a act \<Rightarrow> (s3_error + 'a) act" where
  "or_error f m = io_bind (io_try m) (\<lambda>r. io_return (case r of Inl err \<Rightarrow> Inl (f err) | Inr x \<Rightarrow> Inr x))"

definition not_found_or_internal :: "string \<Rightarrow> s3_error" where
  "not_found_or_internal err = (if contains_str err ''NoSuchKey'' then NoSuchKey else Internal err)"

text \<open>\<open>?\<close> on a result that is an \<open>S3Error\<close>.\<close>

definition s3_bind :: "(s3_error + 'a) act \<Rightarrow> ('a \<Rightarrow> (s3_error + 'b) act) \<Rightarrow> (s3_error + 'b) act" where
  "s3_bind m f = io_bind m (\<lambda>r. case r of Inl err \<Rightarrow> io_return (Inl err) | Inr x \<Rightarrow> f x)"

text \<open>The first chunk decides what \<open>X-S3XC-CACHED\<close> says.\<close>

definition is_hot :: "env \<Rightarrow> string \<Rightarrow> bool act" where
  "is_hot e db_key =
     io_bind (io_try (get_object e db_key)) (\<lambda>r.
       case r of
         Inr (Some local_meta) \<Rightarrow>
           if content_length local_meta = 0 then io_return True
           else io_bind (io_try (get_chunk e db_key 0)) (\<lambda>c. io_return (chunk_is_complete c))
       | _ \<Rightarrow> io_return False)"

definition cache_status :: "bool \<Rightarrow> string" where
  "cache_status hot = (if hot then ''hot'' else ''cold'')"

section \<open>HEAD\<close>

definition head_object_handler :: "env \<Rightarrow> coordinator \<Rightarrow> string \<Rightarrow> string \<Rightarrow> (s3_error + http_response) act" where
  "head_object_handler e co bucket key =
     s3_bind (or_error not_found_or_internal (get_object_metadata e co bucket key)) (\<lambda>meta.
     io_bind (insert_header e ''accept-ranges'' ''bytes'' []) (\<lambda>h1.
     io_bind (insert_header e ''content-length'' (show_u64 (content_length meta)) h1) (\<lambda>h2.
     let h4 = insert_if_valid e ''etag'' (etag meta) (insert_if_valid e ''content-type'' (content_type meta) h2)
     in io_bind (insert_header e ''last-modified'' (format_http_date e (last_modified meta)) h4) (\<lambda>h5.
     io_bind (is_hot e (object_key bucket key)) (\<lambda>hot.
     io_bind (insert_header e ''x-s3xc-cached'' (cache_status hot) h5) (\<lambda>h6.
     io_return (Inr \<lparr>rs_status = 200, rs_headers = h6, rs_body = []\<rparr>)))))))"

section \<open>GET\<close>

text \<open>The headers of the answer; the last one says whether the first chunk is in the cache.\<close>

definition content_range :: "u64 \<Rightarrow> u64 \<Rightarrow> u64 \<Rightarrow> string" where
  "content_range start fin file_size =
     ''bytes '' @ show_u64 start @ ''-'' @ show_u64 (saturating_sub fin 1) @ ''/'' @ show_u64 file_size"

definition get_headers :: "env \<Rightarrow> string \<Rightarrow> object_metadata \<Rightarrow> u64 \<Rightarrow> u64 \<Rightarrow> nat \<Rightarrow> header_map act" where
  "get_headers e db_key meta start fin status_code =
     io_bind (insert_header e ''accept-ranges'' ''bytes'' []) (\<lambda>h1.
     let h3 = insert_if_valid e ''etag'' (etag meta) (insert_if_valid e ''content-type'' (content_type meta) h1)
     in io_bind (insert_header e ''last-modified'' (format_http_date e (last_modified meta)) h3) (\<lambda>h4.
     io_bind (insert_header e ''content-length'' (show_u64 (saturating_sub fin start)) h4) (\<lambda>h5.
     io_bind
       (if status_code = 206 then insert_header e ''content-range'' (content_range start fin (content_length meta)) h5
        else io_return h5) (\<lambda>h6.
     io_bind (is_hot e db_key) (\<lambda>hot.
     insert_header e ''x-s3xc-cached'' (cache_status hot) h6)))))"

text \<open>The range of the answer and its status.\<close>

definition chosen_range :: "env \<Rightarrow> header_map \<Rightarrow> u64 \<Rightarrow> u64 \<times> u64 \<times> nat" where
  "chosen_range e headers_in file_size =
     (case Option.bind (header_str e headers_in ''range'') (\<lambda>r. parse_range r file_size) of
        Some (s, f) \<Rightarrow> (s, f, 206)
      | None \<Rightarrow> (0, file_size, 200))"

definition get_object_handler ::
  "env \<Rightarrow> coordinator \<Rightarrow> header_map \<Rightarrow> string \<Rightarrow> string \<Rightarrow> (s3_error + http_response \<times> read_stream) act" where
  "get_object_handler e co headers_in bucket key =
     s3_bind (or_error not_found_or_internal (get_object_metadata e co bucket key)) (\<lambda>meta.
     let (start, fin, status_code) = chosen_range e headers_in (content_length meta)
     in s3_bind (or_error Internal (read_range e co bucket key start fin)) (\<lambda>stream.
     io_bind (get_headers e (object_key bucket key) meta start fin status_code) (\<lambda>headers.
     io_return (Inr (\<lparr>rs_status = status_code, rs_headers = headers, rs_body = []\<rparr>, stream)))))"

text \<open>The whole answer: the head, and then the body as the client takes it.\<close>

definition serve_get ::
  "env \<Rightarrow> coordinator \<Rightarrow> header_map \<Rightarrow> string \<Rightarrow> string \<Rightarrow> (s3_error + http_response) act" where
  "serve_get e co headers_in bucket key =
     s3_bind (get_object_handler e co headers_in bucket key) (\<lambda>(head, stream).
     io_bind (run_stream e co bucket key stream) (\<lambda>ps. io_return (Inr (head\<lparr>rs_body := ps\<rparr>))))"

section \<open>PUT and copy\<close>

definition copy_result :: "env \<Rightarrow> int \<Rightarrow> string \<Rightarrow> string" where
  "copy_result e now tag =
     ''<?xml version=\"1.0\" encoding=\"UTF-8\"?>'' @ newline @ ''<CopyObjectResult>'' @ newline @
     ''   <LastModified>'' @ format_http_date e now @ ''</LastModified>'' @ newline @
     ''   <ETag>'' @ tag @ ''</ETag>'' @ newline @ ''</CopyObjectResult>''"

text \<open>The bucket and the key of a copy source, if it has both.\<close>

definition copy_source_of :: "string \<Rightarrow> (string \<times> string) option" where
  "copy_source_of copy_source =
     (case splitn2 (CHR ''/'') (trim_start_matches (CHR ''/'') (percent_decode copy_source)) of
        [src_bucket, src_key] \<Rightarrow> Some (src_bucket, fst (split_query src_key))
      | _ \<Rightarrow> None)"

definition copy_object_handler ::
  "env \<Rightarrow> coordinator \<Rightarrow> string \<Rightarrow> string \<Rightarrow> string \<Rightarrow> string \<Rightarrow> (s3_error + http_response) act" where
  "copy_object_handler e co src_bucket src_key bucket key =
     s3_bind (or_error Internal (upstream_copy_object e (proxy co) src_bucket src_key bucket key)) (\<lambda>tag.
     s3_bind (or_error Internal (copy_cache_object e co src_bucket src_key bucket key)) (\<lambda>_.
     io_bind (utc_timestamp e) (\<lambda>now.
     let xml_body = copy_result e now tag
     in io_bind (insert_header e ''content-type'' ''application/xml'' []) (\<lambda>h1.
     io_bind (insert_header e ''content-length'' (show_nat (length xml_body)) h1) (\<lambda>h2.
     io_return (Inr \<lparr>rs_status = 200, rs_headers = h2, rs_body = [Inr xml_body]\<rparr>))))))"

definition store_object_handler ::
  "env \<Rightarrow> coordinator \<Rightarrow> header_map \<Rightarrow> string \<Rightarrow> string \<Rightarrow> piece_stream \<Rightarrow> (s3_error + http_response) act" where
  "store_object_handler e co headers bucket key body_stream =
     (let content_len = (case Option.bind (header_str e headers ''content-length'') parse_u64 of
            None \<Rightarrow> 0 | Some n \<Rightarrow> n);
          ctype = header_str e headers ''content-type''
      in s3_bind (or_error Internal (write_and_cache_object e co bucket key body_stream content_len ctype)) (\<lambda>tag.
         io_bind (insert_header e ''content-length'' ''0'' (insert_if_valid e ''etag'' (Some tag) [])) (\<lambda>h.
         io_return (Inr \<lparr>rs_status = 200, rs_headers = h, rs_body = []\<rparr>))))"

definition put_object_handler ::
  "env \<Rightarrow> coordinator \<Rightarrow> header_map \<Rightarrow> string \<Rightarrow> string \<Rightarrow> piece_stream \<Rightarrow> (s3_error + http_response) act" where
  "put_object_handler e co headers bucket key body_stream =
     (case Option.bind (header_str e headers ''x-amz-copy-source'') copy_source_of of
        Some (src_bucket, src_key) \<Rightarrow> copy_object_handler e co src_bucket src_key bucket key
      | None \<Rightarrow> store_object_handler e co headers bucket key body_stream)"

section \<open>DELETE\<close>

definition delete_object_handler :: "env \<Rightarrow> coordinator \<Rightarrow> string \<Rightarrow> string \<Rightarrow> (s3_error + http_response) act" where
  "delete_object_handler e co bucket key =
     s3_bind (or_error not_found_or_internal (upstream_delete_object e (proxy co) bucket key)) (\<lambda>_.
     s3_bind (or_error Internal (drop_cache_for_object e co bucket key)) (\<lambda>_.
     io_bind (insert_header e ''content-length'' ''0'' []) (\<lambda>h.
     io_return (Inr \<lparr>rs_status = 204, rs_headers = h, rs_body = []\<rparr>))))"

section \<open>The catch-all proxy\<close>

text \<open>\<open>axum::body::to_bytes\<close> fails when the body is longer than the limit or breaks.\<close>

definition to_bytes :: "piece_stream \<Rightarrow> nat \<Rightarrow> bytes option" where
  "to_bytes ps limit =
     (case collect [] ps of Inr b \<Rightarrow> if length b \<le> limit then Some b else None | Inl _ \<Rightarrow> None)"

definition path_and_query :: "client_request \<Rightarrow> string" where
  "path_and_query req = in_path req @ (case in_query req of None \<Rightarrow> [] | Some q \<Rightarrow> ''?'' @ q)"

definition fallback_proxy_handler :: "env \<Rightarrow> coordinator \<Rightarrow> client_request \<Rightarrow> http_response act" where
  "fallback_proxy_handler e co req =
     io_bind (io_try (proxy_request e (proxy co) (in_method req) (path_and_query req) (in_headers req)
         (to_bytes (in_body req) (10 * 1024 * 1024)))) (\<lambda>r.
       case r of
         Inl _ \<Rightarrow> io_return \<lparr>rs_status = 500, rs_headers = [], rs_body = []\<rparr>
       | Inr res \<Rightarrow> io_return res)"

end
