(* ===== verification/SigV4.thy ===== *)
theory SigV4
  imports Sample_Env "HOL-Library.AList"
begin

text \<open>
  \<open>src/server/s3_api.rs\<close>: the verifier of AWS signatures (version 4) of client requests, in the
  \<open>Authorization\<close> header or in the query.  A \<open>HashMap\<close> is an association list with one entry per
  key.
\<close>

section \<open>Credentials\<close>

type_synonym verifier = "(string \<times> string) list"

text \<open>One \<open>access:secret\<close> of the list; a part that has no colon or an empty half is skipped.\<close>

definition add_credential :: "verifier \<Rightarrow> string \<Rightarrow> verifier" where
  "add_credential credentials cred =
     (case splitn2 (CHR '':'') cred of
        [a, s] \<Rightarrow>
          (let access = trim a; secret = trim s
           in if access \<noteq> [] \<and> secret \<noteq> [] then AList.update access secret credentials else credentials)
      | _ \<Rightarrow> credentials)"

definition new_from_str :: "string \<Rightarrow> verifier option" where
  "new_from_str creds_str =
     (if trim creds_str = [] then None
      else
        (let credentials = foldl add_credential [] (split_char (CHR '';'') creds_str)
         in if credentials = [] then None else Some credentials))"

definition new_from_env :: "env \<Rightarrow> verifier option" where
  "new_from_env e =
     (case Option.bind (env_var e ''S3C_CREDENTIALS'') new_from_str of
        Some v \<Rightarrow> Some v
      | None \<Rightarrow>
          (case (env_var e ''S3C_ACCESS_KEY'', env_var e ''S3C_SECRET_KEY'') of
             (Some access_key, Some secret_key) \<Rightarrow>
               if access_key = [] \<or> secret_key = [] then None else Some [(access_key, secret_key)]
           | _ \<Rightarrow> None))"

section \<open>The parameters of a signature\<close>

record sig_params =
  sp_access_key :: string
  sp_date :: string
  sp_datetime :: string
  sp_region :: string
  sp_service :: string
  sp_signed_headers :: "string list"
  sp_signature :: string

text \<open>The fields of the header: the credential, the signed headers, the signature; the last one wins.\<close>

fun auth_fields :: "string list \<Rightarrow> string \<times> string \<times> string \<Rightarrow> string \<times> string \<times> string" where
  "auth_fields [] acc = acc"
| "auth_fields (part # parts) (c, h, s) =
     auth_fields parts
       (case splitn2 (CHR ''='') (trim part) of
          [k, v] \<Rightarrow>
            if k = ''Credential'' then (v, h, s)
            else if k = ''SignedHeaders'' then (c, v, s)
            else if k = ''Signature'' then (c, h, v)
            else (c, h, s)
        | _ \<Rightarrow> (c, h, s))"

definition sig_params_of :: "string \<Rightarrow> string \<Rightarrow> string \<Rightarrow> string \<Rightarrow> sig_params option" where
  "sig_params_of credential datetime signed_headers_str signature =
     (case split_char (CHR ''/'') credential of
        access_key # date # region # service # _ # _ \<Rightarrow>
          Some \<lparr>sp_access_key = access_key, sp_date = date, sp_datetime = datetime, sp_region = region,
            sp_service = service, sp_signed_headers = split_char (CHR '';'') signed_headers_str,
            sp_signature = signature\<rparr>
      | _ \<Rightarrow> None)"

definition extract_from_headers :: "env \<Rightarrow> header_map \<Rightarrow> sig_params option" where
  "extract_from_headers e headers =
     (case header_str e headers ''authorization'' of
        None \<Rightarrow> None
      | Some auth_val \<Rightarrow>
          if \<not> starts_with auth_val ''AWS4-HMAC-SHA256 '' then None
          else
            (let parts = trim (drop 17 auth_val);
                 (credential, signed_headers_str, signature) = auth_fields (split_char (CHR '','') parts) ([], [], [])
             in if credential = [] \<or> signed_headers_str = [] \<or> signature = [] then None
                else
                  (case (case header_str e headers ''x-amz-date'' of Some d \<Rightarrow> Some d
                         | None \<Rightarrow> header_str e headers ''date'') of
                     None \<Rightarrow> None
                   | Some datetime \<Rightarrow> sig_params_of credential datetime signed_headers_str signature)))"

text \<open>The query as a \<open>HashMap\<close>: of two values of a name the last one is kept.\<close>

definition query_map :: "(string \<times> string) list \<Rightarrow> string \<Rightarrow> string option" where
  "query_map params n = map_of (rev params) n"

definition extract_from_query :: "env \<Rightarrow> string \<Rightarrow> sig_params option" where
  "extract_from_query e query =
     (let params = form_parse e query
      in if query_map params ''X-Amz-Algorithm'' \<noteq> Some ''AWS4-HMAC-SHA256'' then None
         else
           (case (query_map params ''X-Amz-Credential'', query_map params ''X-Amz-Date'',
                  query_map params ''X-Amz-SignedHeaders'', query_map params ''X-Amz-Signature'') of
              (Some credential, Some datetime, Some signed_headers_str, Some signature) \<Rightarrow>
                sig_params_of credential datetime signed_headers_str signature
            | _ \<Rightarrow> None))"

section \<open>Verification\<close>

definition derive_signing_key :: "env \<Rightarrow> string \<Rightarrow> string \<Rightarrow> string \<Rightarrow> string \<Rightarrow> bytes" where
  "derive_signing_key e secret_key date region service =
     (let k_date = hmac_sha256 e (''AWS4'' @ secret_key) date;
          k_region = hmac_sha256 e k_date region;
          k_service = hmac_sha256 e k_region service
      in hmac_sha256 e k_service ''aws4_request'')"

text \<open>
  \<open>HeaderMap::get\<close> looks a name up in lower case.  \<open>to_lowercase\<close> is that of ASCII letters, as the
  names of the signed headers are.
\<close>

definition build_canonical_request :: "env \<Rightarrow> client_request \<Rightarrow> sig_params \<Rightarrow> string" where
  "build_canonical_request e req params =
     (let query_str = (case in_query req of None \<Rightarrow> [] | Some q \<Rightarrow> q);
          query_params = sort_key fst (filter (\<lambda>(k, _). k \<noteq> ''X-Amz-Signature'') (form_parse e query_str));
          canonical_headers =
            concat (map (\<lambda>n. to_lowercase n @ '':'' @ header_trimmed e (in_headers req) (to_lowercase n) @ newline)
              (sp_signed_headers params));
          hashed_payload = (case header_str e (in_headers req) ''x-amz-content-sha256'' of
              None \<Rightarrow> ''UNSIGNED-PAYLOAD'' | Some h \<Rightarrow> h)
      in join newline
        [in_method req, in_path req, canonical_query query_params, canonical_headers,
         join '';'' (sp_signed_headers params), hashed_payload])"

text \<open>The signature the verifier expects, steps 3 to 6 of \<open>verify\<close>.\<close>

definition expected_signature :: "env \<Rightarrow> string \<Rightarrow> client_request \<Rightarrow> sig_params \<Rightarrow> string" where
  "expected_signature e secret_key req params =
     (let canonical_hash = hex_encode e (sha256 e (build_canonical_request e req params));
          credential_scope = sp_date params @ ''/'' @ sp_region params @ ''/'' @ sp_service params @ ''/aws4_request'';
          string_to_sign = join newline [''AWS4-HMAC-SHA256'', sp_datetime params, credential_scope, canonical_hash]
      in hex_encode e (hmac_mac e
           (derive_signing_key e secret_key (sp_date params) (sp_region params) (sp_service params)) string_to_sign))"

definition sig_params_in :: "env \<Rightarrow> client_request \<Rightarrow> sig_params option" where
  "sig_params_in e req =
     (case extract_from_headers e (in_headers req) of
        Some p \<Rightarrow> Some p
      | None \<Rightarrow> extract_from_query e (case in_query req of None \<Rightarrow> [] | Some q \<Rightarrow> q))"

definition verify :: "env \<Rightarrow> verifier \<Rightarrow> client_request \<Rightarrow> s3_error + client_credentials" where
  "verify e v req =
     (case sig_params_in e req of
        None \<Rightarrow> Inl InvalidAccessKeyId
      | Some params \<Rightarrow>
          (case map_of v (sp_access_key params) of
             None \<Rightarrow> Inl InvalidAccessKeyId
           | Some secret_key \<Rightarrow>
               if expected_signature e secret_key req params \<noteq> sp_signature params then Inl SignatureDoesNotMatch
               else Inr \<lparr>cc_access_key = sp_access_key params, cc_secret_key = secret_key,
                 cc_session_token =
                   (case header_str e (in_headers req) ''x-amz-security-token'' of
                      Some t \<Rightarrow> Some t
                    | None \<Rightarrow> Option.bind (in_query req) (\<lambda>q. map_of (form_parse e q) ''X-Amz-Security-Token''))\<rparr>))"

section \<open>Lemmas: what a verified request proves\<close>

text \<open>
  The request as the server sees it when a client of this program sends it.
\<close>

definition as_received :: "http_request \<Rightarrow> client_request" where
  "as_received rq = \<lparr>in_method = rq_method rq, in_path = url_path (rq_url rq), in_query = url_query (rq_url rq),
     in_headers = rq_headers rq,
     in_body = (case rq_body rq of NoBody \<Rightarrow> [] | FullBody b \<Rightarrow> [Inr b] | StreamBody bs \<Rightarrow> map Inr bs)\<rparr>"

text \<open>Digests are printed in hexadecimal.\<close>

definition digests_ok :: "env \<Rightarrow> bool" where
  "digests_ok e \<longleftrightarrow> (\<forall>b. set (hex_encode e b) \<subseteq> set ''0123456789abcdef'') \<and>
     (\<forall>k b. hex_encode e (hmac_mac e k b) \<noteq> [])"

text \<open>A part of a credential: printable, without the separators of the header.\<close>

definition plain :: "string \<Rightarrow> bool" where
  "plain s \<longleftrightarrow> list_all visible s \<and> CHR ''/'' \<notin> set s \<and> CHR '','' \<notin> set s"

lemma plain_printable: "plain s \<Longrightarrow> printable s"
  by (auto simp: plain_def printable_def list_all_iff)

lemma hex_visible: "digests_ok e \<Longrightarrow> list_all visible (hex_encode e b)"
  by (fastforce simp: digests_ok_def list_all_iff visible_def)

lemma hex_no_comma: "digests_ok e \<Longrightarrow> CHR '','' \<notin> set (hex_encode e b)"
  by (fastforce simp: digests_ok_def)

text \<open>The header that \<open>prepare_request\<close> writes, and what the verifier reads in it.\<close>

definition auth_header :: "string \<Rightarrow> string \<Rightarrow> string \<Rightarrow> string" where
  "auth_header credential names sig =
     ''AWS4-HMAC-SHA256 Credential='' @ credential @ '', SignedHeaders='' @ names @ '', Signature='' @ sig"

lemma auth_fields_header:
  assumes "CHR '','' \<notin> set credential" and "CHR '','' \<notin> set names" and "CHR '','' \<notin> set sig"
    and "credential \<noteq> []" and "names \<noteq> []" and "sig \<noteq> []"
    and "list_all visible credential" and "list_all visible names" and "list_all visible sig"
  shows "starts_with (auth_header credential names sig) ''AWS4-HMAC-SHA256 ''"
    and "auth_fields (split_char (CHR '','') (trim (drop 17 (auth_header credential names sig)))) ([], [], [])
      = (credential, names, sig)"
proof -
  have vis: "visible (last s)" if "s \<noteq> []" "list_all visible s" for s
    using that by (auto simp: list_all_iff)
  show "starts_with (auth_header credential names sig) ''AWS4-HMAC-SHA256 ''"
    by (simp add: auth_header_def starts_with_def)
  have "drop 17 (auth_header credential names sig) =
      ''Credential='' @ credential @ '', SignedHeaders='' @ names @ '', Signature='' @ sig"
    by (simp add: auth_header_def)
  moreover have "trim (''Credential='' @ credential @ '', SignedHeaders='' @ names @ '', Signature='' @ sig) =
      ''Credential='' @ credential @ '', SignedHeaders='' @ names @ '', Signature='' @ sig"
    using vis [of sig] assms by (intro trim_ends) (simp_all add: visible_def)
  moreover have "split_char (CHR '','') (''Credential='' @ credential @ '', SignedHeaders='' @ names @ '', Signature='' @ sig) =
      [''Credential='' @ credential, '' SignedHeaders='' @ names, '' Signature='' @ sig]"
    using split_char_append [of "CHR '',''" "''Credential='' @ credential"]
      split_char_append [of "CHR '',''" "'' SignedHeaders='' @ names"]
      split_char_no_sep [of "CHR '',''" "'' Signature='' @ sig"] assms(1-3) by simp
  moreover have "trim (''Credential='' @ credential) = ''Credential='' @ credential"
    "trim ('' SignedHeaders='' @ names) = ''SignedHeaders='' @ names" "trim ('' Signature='' @ sig) = ''Signature='' @ sig"
    using vis assms by (simp_all add: trim_space) (intro trim_ends; simp add: visible_def)+
  moreover have "splitn2 (CHR ''='') (''Credential='' @ x) = [''Credential'', x]"
    "splitn2 (CHR ''='') (''SignedHeaders='' @ x) = [''SignedHeaders'', x]"
    "splitn2 (CHR ''='') (''Signature='' @ x) = [''Signature'', x]" for x
    using splitn2_append [of "CHR ''=''" "''Credential''" x] splitn2_append [of "CHR ''=''" "''SignedHeaders''" x]
      splitn2_append [of "CHR ''=''" "''Signature''" x] by simp_all
  ultimately show "auth_fields (split_char (CHR '','') (trim (drop 17 (auth_header credential names sig)))) ([], [], [])
      = (credential, names, sig)"
    by simp
qed

lemma sig_params_of_scope:
  assumes "plain ak" and "plain date" and "plain region"
  shows "sig_params_of (ak @ ''/'' @ date @ ''/'' @ region @ ''/s3/aws4_request'') datetime names sig =
    Some \<lparr>sp_access_key = ak, sp_date = date, sp_datetime = datetime, sp_region = region, sp_service = ''s3'',
      sp_signed_headers = split_char (CHR '';'') names, sp_signature = sig\<rparr>"
  using assms split_char_append [of "CHR ''/''" ak] split_char_append [of "CHR ''/''" date]
    split_char_append [of "CHR ''/''" region]
  by (simp add: sig_params_of_def plain_def)

text \<open>The parts of a request signed by \<open>prepare_request\<close>.\<close>

definition signed_names :: "header_map \<Rightarrow> string list" where
  "signed_names hs = sort ([''host'', ''x-amz-content-sha256'', ''x-amz-date''] @
     (if hm_contains hs ''range'' then [''range''] else []) @
     (if hm_contains hs ''x-amz-copy-source'' then [''x-amz-copy-source''] else []))"

definition header_words :: "string list" where
  "header_words = [''host'', ''x-amz-content-sha256'', ''x-amz-date'', ''range'', ''x-amz-copy-source'']"

definition header_char :: "char \<Rightarrow> bool" where
  "header_char c \<longleftrightarrow> visible c \<and> c \<noteq> CHR '','' \<and> c \<noteq> CHR '';'' \<and> ((90 :: nat) < of_char c \<or> of_char c < (65 :: nat))"

lemma header_words_ok: "list_all (list_all header_char) header_words"
  by (simp add: header_words_def header_char_def visible_def)

lemma signed_names_set: "set (signed_names hs) \<subseteq> set header_words"
  by (auto simp: signed_names_def header_words_def split: if_splits)

lemma signed_names_char: "n \<in> set (signed_names hs) \<Longrightarrow> c \<in> set n \<Longrightarrow> header_char c"
  using signed_names_set [of hs] header_words_ok by (auto simp: list_all_iff)

lemma signed_names_not: "''authorization'' \<notin> set (signed_names hs)"
proof -
  have "''authorization'' \<notin> set header_words" by (simp add: header_words_def)
  with signed_names_set show ?thesis by blast
qed

lemma signed_names_nonempty: "signed_names hs \<noteq> []"
proof -
  have "''host'' \<in> set (signed_names hs)" by (simp add: signed_names_def)
  then show ?thesis by auto
qed

lemma signed_names_lower: "n \<in> set (signed_names hs) \<Longrightarrow> to_lowercase n = n"
  unfolding to_lowercase_def
  by (rule map_idI) (auto simp: lower_char_def less_eq_char_def header_char_def dest!: signed_names_char)

lemma set_join: "set (join sep ps) \<subseteq> set sep \<union> (\<Union>p \<in> set ps. set p)"
  by (induction sep ps rule: join.induct) auto

lemma signed_names_join_char: "c \<in> set (join '';'' (signed_names hs)) \<Longrightarrow> visible c \<and> c \<noteq> CHR '',''"
  using set_join [of "'';''" "signed_names hs"] signed_names_char [of _ hs c]
  by (auto simp: header_char_def visible_def dest!: subsetD)

lemma signed_names_join:
  "CHR '','' \<notin> set (join '';'' (signed_names hs))" "list_all visible (join '';'' (signed_names hs))"
  "join '';'' (signed_names hs) \<noteq> []" "split_char (CHR '';'') (join '';'' (signed_names hs)) = signed_names hs"
proof -
  show "CHR '','' \<notin> set (join '';'' (signed_names hs))" "list_all visible (join '';'' (signed_names hs))"
    using signed_names_join_char by (auto simp: list_all_iff)
  have no: "CHR '';'' \<notin> set p" if "p \<in> set (signed_names hs)" for p
    using signed_names_char [OF that] by (auto simp: header_char_def)
  show split: "split_char (CHR '';'') (join '';'' (signed_names hs)) = signed_names hs"
    using no by (intro split_join) (simp_all add: signed_names_nonempty)
  show "join '';'' (signed_names hs) \<noteq> []"
  proof
    assume "join '';'' (signed_names hs) = []"
    with split have "signed_names hs = [[]]" by simp
    moreover have "''host'' \<in> set (signed_names hs)" by (simp add: signed_names_def)
    ultimately show False by simp
  qed
qed

definition signature_of ::
  "env \<Rightarrow> string \<Rightarrow> string \<Rightarrow> string \<Rightarrow> url \<Rightarrow> string \<Rightarrow> header_map \<Rightarrow> string \<Rightarrow> string" where
  "signature_of e sk region meth url datetime hs payload =
     (let date = take 8 datetime;
          cquery = canonical_query (sort_key fst (case url_query url of None \<Rightarrow> [] | Some q \<Rightarrow> form_parse e q));
          canonical_req = join newline [meth, url_path url, cquery,
            concat (map (\<lambda>n. n @ '':'' @ header_trimmed e hs n @ newline) (signed_names hs)),
            join '';'' (signed_names hs), payload]
      in hex_encode e (hmac_mac e (derive_signing_key e sk date region ''s3'')
           (join newline [''AWS4-HMAC-SHA256'', datetime, date @ ''/'' @ region @ ''/s3/aws4_request'',
              hex_encode e (sha256 e canonical_req)])))"

lemma io_lift_eq [simp]: "io_lift r w = (Inr x, w') \<longleftrightarrow> r = Inr x \<and> w' = w"
  by (cases r) auto

lemma prepare_request_signed:
  assumes "prepare_request e pc meth bucket kq hs body w = (Inr rq, w')" and "signer pc = SigV4 ak sk region"
  defines "datetime \<equiv> amz_date e (clock e (ticks w))"
  shows "\<exists>hs1 hs3 payload dt_hv pl_hv au_hv.
    hm_get hs1 ''x-amz-date'' = Some dt_hv \<and> hv_parse e datetime = Inr dt_hv \<and>
    hm_get hs1 ''x-amz-content-sha256'' = hm_get hs ''x-amz-content-sha256'' \<and>
    payload = (case header_str e hs1 ''x-amz-content-sha256'' of Some val \<Rightarrow> val
        | None \<Rightarrow> (case body of Some b \<Rightarrow> hex_encode e (sha256 e b) | None \<Rightarrow> empty_payload_hash)) \<and>
    hv_parse e payload = Inr pl_hv \<and> hs3 = hm_insert ''x-amz-content-sha256'' pl_hv hs1 \<and>
    hv_parse e (auth_header (ak @ ''/'' @ take 8 datetime @ ''/'' @ region @ ''/s3/aws4_request'')
        (join '';'' (signed_names hs3)) (signature_of e sk region meth (rq_url rq) datetime hs3 payload)) = Inr au_hv \<and>
    rq_headers rq = hm_insert ''authorization'' au_hv hs3"
  using assms(1) unfolding prepare_request_def Let_def assms(2) auth_signer.case
proof (elim io_bind_okE, goal_cases)
  case (1 url w1 host_hv w2 headers w3 now w4 dt_hv w5 pl_hv w6 au_hv w7)
  let ?hs1 = "hm_insert ''x-amz-date'' dt_hv (hm_insert ''host'' host_hv hs)"
  from 1 have w: "now = clock e (ticks w)" and u: "rq_url rq = url" and h: "rq_headers rq = headers" by auto
  let ?hs3 = "hm_insert ''x-amz-content-sha256'' pl_hv ?hs1"
  let ?pl = "case header_str e ?hs1 ''x-amz-content-sha256'' of Some val \<Rightarrow> val
    | None \<Rightarrow> (case body of Some b \<Rightarrow> hex_encode e (sha256 e b) | None \<Rightarrow> empty_payload_hash)"
  have big: "hv_parse e (auth_header (ak @ ''/'' @ take 8 datetime @ ''/'' @ region @ ''/s3/aws4_request'')
      (join '';'' (signed_names ?hs3)) (signature_of e sk region meth url datetime ?hs3 ?pl)) = Inr au_hv"
    using 1(7) unfolding auth_header_def signature_of_def derive_signing_key_def signed_names_def Let_def datetime_def w
    by (simp only: io_lift_eq append_assoc)
  have rest: "hv_parse e datetime = Inr dt_hv" "hv_parse e ?pl = Inr pl_hv" "headers = hm_insert ''authorization'' au_hv ?hs3"
    using 1(5,6,8) by (simp_all add: datetime_def w)
  show ?case
    unfolding u h rest(3)
    by (rule exI [of _ ?hs1], rule exI [of _ ?hs3], rule exI [of _ ?pl], rule exI [of _ dt_hv], rule exI [of _ pl_hv],
        rule exI [of _ au_hv]) (intro conjI big rest refl; simp)
qed

lemma hv_round_trip:
  "header_values_ok e \<Longrightarrow> printable s \<Longrightarrow> hv_parse e s = Inr v \<Longrightarrow> hv_to_str e v = Some s"
  by (auto simp: header_values_ok_def)

text \<open>The credential scope, the signature and the header made of them are printable, without commas.\<close>

lemma credential_plain:
  assumes "plain ak" and "plain region" and "plain datetime"
  defines "cred \<equiv> ak @ ''/'' @ take 8 datetime @ ''/'' @ region @ ''/s3/aws4_request''"
  shows "plain (take 8 datetime)" "CHR '','' \<notin> set cred" "list_all visible cred" "cred \<noteq> []"
proof -
  show date: "plain (take 8 datetime)"
    using assms(3) by (auto simp: plain_def list_all_iff dest: in_set_takeD)
  show "CHR '','' \<notin> set cred" "list_all visible cred" "cred \<noteq> []"
    using assms(1,2) date unfolding cred_def by (simp_all add: plain_def) (simp_all add: visible_def)
qed

lemma signature_visible:
  assumes "digests_ok e"
  shows "CHR '','' \<notin> set (signature_of e sk region meth u dt hs pl)" "list_all visible (signature_of e sk region meth u dt hs pl)"
    "signature_of e sk region meth u dt hs pl \<noteq> []"
  using hex_no_comma [OF assms] hex_visible [OF assms] assms by (simp_all add: signature_of_def Let_def digests_ok_def)

text \<open>The verifier finds the parameters of the signature in the headers of the request.\<close>

lemma signed_params:
  assumes "header_values_ok e" and "plain ak" and "plain region" and "plain datetime"
    and sg: "CHR '','' \<notin> set sig" "list_all visible sig" "sig \<noteq> []"
  defines "cred \<equiv> ak @ ''/'' @ take 8 datetime @ ''/'' @ region @ ''/s3/aws4_request''"
  assumes au: "hv_parse e (auth_header cred (join '';'' (signed_names hs)) sig) = Inr au"
      "hm_get (rq_headers rq) ''authorization'' = Some au"
    and dt: "hv_parse e datetime = Inr dt" "hm_get (rq_headers rq) ''x-amz-date'' = Some dt"
  shows "sig_params_in e (as_received rq) = Some \<lparr>sp_access_key = ak, sp_date = take 8 datetime, sp_datetime = datetime,
    sp_region = region, sp_service = ''s3'', sp_signed_headers = signed_names hs, sp_signature = sig\<rparr>"
proof -
  note cred = credential_plain [OF assms(2-4), folded cred_def]
  note names = signed_names_join [of hs]
  have "printable (auth_header cred (join '';'' (signed_names hs)) sig)"
    using cred(3) sg(2) names(2) unfolding auth_header_def
    by (auto simp: printable_def list_all_iff visible_def)
  with au assms(1) have get_au: "header_str e (rq_headers rq) ''authorization'' = Some (auth_header cred (join '';'' (signed_names hs)) sig)"
    by (simp add: header_str_def hv_round_trip)
  from dt assms(1,4) have get_dt: "header_str e (rq_headers rq) ''x-amz-date'' = Some datetime"
    by (simp add: header_str_def hv_round_trip plain_printable)
  from auth_fields_header [OF cred(2) names(1) sg(1) cred(4) names(3) sg(3) cred(3) names(2) sg(2)]
    sig_params_of_scope [OF assms(2) cred(1) assms(3), of datetime "join '';'' (signed_names hs)" sig]
    cred(4) names(3,4) sg(3)
  show ?thesis
    by (simp add: sig_params_in_def extract_from_headers_def as_received_def get_au get_dt Let_def cred_def)
qed

text \<open>The signature it expects is the one of the request.\<close>

lemma signed_matches:
  assumes hdr: "rq_headers rq = hm_insert ''authorization'' au hs"
    and payload: "header_str e hs ''x-amz-content-sha256'' = Some pl"
    and query: "form_parse e [] = []" "\<And>q. url_query (rq_url rq) = Some q \<Longrightarrow> ''X-Amz-Signature'' \<notin> fst ` set (form_parse e q)"
    and sig: "sig = signature_of e sk region (rq_method rq) (rq_url rq) datetime hs pl"
  shows "expected_signature e sk (as_received rq) \<lparr>sp_access_key = ak, sp_date = take 8 datetime, sp_datetime = datetime,
    sp_region = region, sp_service = ''s3'', sp_signed_headers = signed_names hs, sp_signature = sig\<rparr> = sig"
proof -
  have q: "filter (\<lambda>(k, _). k \<noteq> ''X-Amz-Signature'') (form_parse e (case url_query (rq_url rq) of None \<Rightarrow> [] | Some q \<Rightarrow> q)) =
      (case url_query (rq_url rq) of None \<Rightarrow> [] | Some q \<Rightarrow> form_parse e q)"
    using query by (cases "url_query (rq_url rq)") (force simp: filter_id_conv)+
  have "header_trimmed e (rq_headers rq) (to_lowercase n) = header_trimmed e hs n" if "n \<in> set (signed_names hs)" for n
  proof -
    from that signed_names_not [of hs] have "n \<noteq> ''authorization''" by blast
    then show ?thesis by (simp add: header_trimmed_def hdr signed_names_lower [OF that])
  qed
  then have heads: "concat (map (\<lambda>n. to_lowercase n @ '':'' @ header_trimmed e (rq_headers rq) (to_lowercase n) @ newline) (signed_names hs)) =
      concat (map (\<lambda>n. n @ '':'' @ header_trimmed e hs n @ newline) (signed_names hs))"
    using signed_names_lower by (intro arg_cong [where f = concat] map_cong) auto
  have pl: "header_str e (rq_headers rq) ''x-amz-content-sha256'' = Some pl"
    using payload by (simp add: header_str_def hdr)
  show ?thesis
    unfolding sig expected_signature_def build_canonical_request_def as_received_def signature_of_def Let_def
      sig_params.simps client_request.simps pl q heads option.case by simp
qed

text \<open>C14. The signer of upstream requests and the verifier of client requests implement the same
  protocol: a request that prepare_request has signed with a key pair is accepted by a verifier
  that holds the pair, whatever the method, bucket, key, query, headers and body.\<close>

theorem verify_signed:
  assumes "prepare_request e pc meth bucket kq hs body w = (Inr rq, w')" and "signer pc = SigV4 ak sk region"
    and "map_of v ak = Some sk" and "header_values_ok e" and "digests_ok e" and "form_parse e [] = []"
    and "plain ak" and "plain region" and "plain (amz_date e (clock e (ticks w)))"
    and "\<And>val. header_str e hs ''x-amz-content-sha256'' = Some val \<Longrightarrow> printable val"
    and "\<And>q. url_query (rq_url rq) = Some q \<Longrightarrow> ''X-Amz-Signature'' \<notin> fst ` set (form_parse e q)"
  shows "\<exists>creds. verify e v (as_received rq) = Inr creds \<and> cc_access_key creds = ak \<and> cc_secret_key creds = sk"
proof -
  let ?dt = "amz_date e (clock e (ticks w))"
  from prepare_request_signed [OF assms(1,2)] obtain hs1 hs3 payload dt_hv pl_hv au_hv where
    dt: "hm_get hs1 ''x-amz-date'' = Some dt_hv" "hv_parse e ?dt = Inr dt_hv"
    and h1: "hm_get hs1 ''x-amz-content-sha256'' = hm_get hs ''x-amz-content-sha256''"
    and pl: "payload = (case header_str e hs1 ''x-amz-content-sha256'' of Some val \<Rightarrow> val
        | None \<Rightarrow> (case body of Some b \<Rightarrow> hex_encode e (sha256 e b) | None \<Rightarrow> empty_payload_hash))"
    and plv: "hv_parse e payload = Inr pl_hv" and h3: "hs3 = hm_insert ''x-amz-content-sha256'' pl_hv hs1"
    and au: "hv_parse e (auth_header (ak @ ''/'' @ take 8 ?dt @ ''/'' @ region @ ''/s3/aws4_request'') (join '';'' (signed_names hs3))
      (signature_of e sk region meth (rq_url rq) ?dt hs3 payload)) = Inr au_hv"
    and hdr: "rq_headers rq = hm_insert ''authorization'' au_hv hs3"
    by blast
  have "printable empty_payload_hash" by (auto simp: empty_payload_hash_def visible_def)
  moreover have "printable (hex_encode e b)" for b using hex_visible [OF assms(5)] by (auto simp: printable_def list_all_iff)
  moreover have "header_str e hs1 ''x-amz-content-sha256'' = header_str e hs ''x-amz-content-sha256''"
    by (simp add: header_str_def h1)
  ultimately have "printable payload" using assms(10) by (auto simp: pl split: option.split)
  then have payload: "header_str e hs3 ''x-amz-content-sha256'' = Some payload"
    using hv_round_trip [OF assms(4) _ plv] by (simp add: header_str_def h3)
  have meth: "rq_method rq = meth" using prepare_request_fields [OF assms(1)] by simp
  have "hm_get (rq_headers rq) ''authorization'' = Some au_hv" "hm_get (rq_headers rq) ''x-amz-date'' = Some dt_hv"
    using dt(1) by (simp_all add: hdr h3)
  from signed_params [OF assms(4,7-9) signature_visible [OF assms(5)] au this(1) dt(2) this(2)]
    signed_matches [OF hdr payload assms(6,11) refl, of sk ak ?dt region] assms(3)
  show ?thesis by (simp add: verify_def meth)
qed

section \<open>The list of credentials\<close>

text \<open>A pair that can be written in the list.\<close>

definition pair_ok :: "string \<times> string \<Rightarrow> bool" where
  "pair_ok = (\<lambda>(a, s). a \<noteq> [] \<and> s \<noteq> [] \<and> list_all visible a \<and> list_all visible s \<and>
     CHR '':'' \<notin> set a \<and> CHR '';'' \<notin> set a \<and> CHR '';'' \<notin> set s)"

definition print_credentials :: "(string \<times> string) list \<Rightarrow> string" where
  "print_credentials cs = join '';'' (map (\<lambda>(a, s). a @ '':'' @ s) cs)"

lemma add_credential_pair: "pair_ok (a, s) \<Longrightarrow> add_credential v (a @ '':'' @ s) = AList.update a s v"
  by (simp add: add_credential_def pair_ok_def splitn2_append trim_visible)

lemma foldl_credentials:
  "list_all pair_ok cs \<Longrightarrow>
   map_of (foldl add_credential v (map (\<lambda>(a, s). a @ '':'' @ s) cs)) = map_of v ++ map_of (rev cs)"
proof (induction cs arbitrary: v)
  case Nil
  then show ?case by simp
next
  case (Cons c cs)
  obtain a s where c: "c = (a, s)" by (cases c)
  with Cons.prems have "add_credential v (a @ '':'' @ s) = AList.update a s v" by (intro add_credential_pair) simp
  with Cons c show ?case by (auto simp: update_conv' map_add_def fun_eq_iff split: option.split)
qed

text \<open>C38. Every list of credentials written as access:secret pairs with semicolons between them is
  read back as the same map, the last pair of an access key winning; a secret may contain
  colons.\<close>

theorem new_from_str_print:
  assumes "list_all pair_ok cs" and "cs \<noteq> []"
  shows "\<exists>v. new_from_str (print_credentials cs) = Some v \<and> map_of v = map_of (rev cs)"
proof -
  let ?ps = "map (\<lambda>(a, s). a @ '':'' @ s) cs"
  have no: "CHR '';'' \<notin> set p" if "p \<in> set ?ps" for p
    using that assms(1) by (auto simp: list_all_iff pair_ok_def)
  then have split: "split_char (CHR '';'') (print_credentials cs) = ?ps"
    unfolding print_credentials_def using assms(2) by (intro split_join) auto
  have "set (print_credentials cs) \<subseteq> set '';'' \<union> (\<Union>p \<in> set ?ps. set p)"
    unfolding print_credentials_def by (rule set_join)
  moreover have "visible c" if "p \<in> set ?ps" "c \<in> set p" for p c
  proof -
    from that(1) obtain a s where "(a, s) \<in> set cs" and p: "p = a @ '':'' @ s" by auto
    with assms(1) have "list_all visible a" "list_all visible s" by (auto simp: list_all_iff pair_ok_def)
    then have "list_all visible p" by (simp add: p) (simp add: visible_def)
    with that(2) show ?thesis by (simp add: list_all_iff)
  qed
  moreover have "visible c" if "c \<in> set '';''" for c
    using that by (simp add: visible_def)
  ultimately have "list_all visible (print_credentials cs)"
    unfolding list_all_iff by blast
  then have "trim (print_credentials cs) = print_credentials cs" by (rule trim_visible)
  moreover have "print_credentials cs \<noteq> []"
  proof
    assume "print_credentials cs = []"
    with split have "?ps = [[]]" by simp
    with assms show False by (cases cs) auto
  qed
  moreover have m: "map_of (foldl add_credential [] ?ps) = map_of (rev cs)"
    using foldl_credentials [OF assms(1), of "[]"] by simp
  moreover have "foldl add_credential [] ?ps \<noteq> []"
  proof
    assume "foldl add_credential [] ?ps = []"
    with m have "map_of (rev cs) = Map.empty" by simp
    with assms(2) show False by (simp add: map_of_eq_empty_iff)
  qed
  ultimately show ?thesis by (simp add: new_from_str_def split)
qed

section \<open>The properties on concrete requests\<close>

lemma new_from_str_print_witness:
  "\<exists>v. new_from_str (print_credentials [(''AK'', ''s:1''), (''BK'', ''s2'')]) = Some v \<and> map_of v ''AK'' = Some ''s:1''"
  using new_from_str_print [of "[(''AK'', ''s:1''), (''BK'', ''s2'')]"] by (simp add: pair_ok_def visible_def) auto

definition signing_client :: proxy_client where
  "signing_client = sample_proxy\<lparr>signer := SigV4 ''AK'' ''SK'' ''us-east-1''\<rparr>"

lemma sample_digests: "digests_ok (sample_env objs)"
proof -
  have "hex_pad b \<noteq> []" for b using hex_pad_ok(1) [of b] by auto
  then show ?thesis using hex_pad_ok by (simp add: digests_ok_def)
qed

lemma sample_signed:
  "\<exists>rq. prepare_request (sample_env objs) signing_client ''GET'' (Some ''b'') ''k'' [] None empty_world = (Inr rq, empty_world)"
proof -
  have sel: "pc_path_scheme (pc\<lparr>signer := s\<rparr>) = pc_path_scheme pc"
    "upstream_endpoint (pc\<lparr>signer := s\<rparr>) = upstream_endpoint pc" for pc :: proxy_client and s by simp_all
  have "build_url e (pc\<lparr>signer := s\<rparr>) = build_url e pc" for e pc s
    by (rule ext, rule ext) (simp only: build_url_def sel)
  then have "build_url (sample_env objs) signing_client (Some ''b'') ''k'' = Inr (sample_url ''b'' ''k'')"
    by (simp add: signing_client_def sample_build_url)
  moreover have "signer signing_client = SigV4 ''AK'' ''SK'' ''us-east-1''" by (simp add: signing_client_def)
  ultimately show ?thesis by (simp add: prepare_request_def io_bind_apply Let_def)
qed

lemma verify_signed_witness:
  "\<exists>rq creds. prepare_request (sample_env (\<lambda>_. None)) signing_client ''GET'' (Some ''b'') ''k'' [] None empty_world = (Inr rq, empty_world) \<and>
     verify (sample_env (\<lambda>_. None)) [(''AK'', ''SK'')] (as_received rq) = Inr creds \<and> cc_access_key creds = ''AK''"
proof -
  from sample_signed obtain rq where
    p: "prepare_request (sample_env (\<lambda>_. None)) signing_client ''GET'' (Some ''b'') ''k'' [] None empty_world = (Inr rq, empty_world)" ..
  have "amz_date (sample_env objs) t = ''20260101T000000Z''" "form_parse (sample_env objs) q = []" for t q objs
    by (simp_all add: sample_env_def)
  with verify_signed [OF p, where ak = "''AK''" and sk = "''SK''" and region = "''us-east-1''" and v = "[(''AK'', ''SK'')]"] p
  show ?thesis
    by (simp add: signing_client_def sample_header_values sample_digests plain_def visible_def header_str_def) blast
qed

end
