(* ===== verification/Server.thy ===== *)
theory Server
  imports Handlers SigV4
begin

text \<open>
  \<open>src/server/mod.rs\<close>: how a request finds its handler, and the middleware that verifies its
  signature first.
\<close>

section \<open>Answers\<close>

text \<open>\<open>Result<Response, S3Error>\<close> as a response.\<close>

definition into_response :: "env \<Rightarrow> (s3_error + http_response) act \<Rightarrow> http_response act" where
  "into_response e m =
     io_bind m (\<lambda>r. io_return (case r of Inl err \<Rightarrow> error_response e err | Inr res \<Rightarrow> res))"

text \<open>\<open>axum\<close>'s own answers: a path it cannot decode, and a method the route does not have.\<close>

definition bad_path :: "string \<Rightarrow> http_response" where
  "bad_path why = \<lparr>rs_status = 400, rs_headers = [(''content-type'', ''text/plain; charset=utf-8'')], rs_body = [Inr why]\<rparr>"

definition method_not_allowed :: http_response where
  "method_not_allowed = \<lparr>rs_status = 405, rs_headers = [(''allow'', ''GET,HEAD,PUT,DELETE'')], rs_body = []\<rparr>"

section \<open>Routing\<close>

record app_state =
  cache :: coordinator
  app_upstream_endpoint :: string
  app_upstream_region :: string

definition object_methods :: "string set" where
  "object_methods = {''GET'', ''HEAD'', ''PUT'', ''DELETE''}"

definition object_route :: "env \<Rightarrow> coordinator \<Rightarrow> client_request \<Rightarrow> string \<Rightarrow> string \<Rightarrow> http_response act" where
  "object_route e co req bucket key =
     (if in_method req = ''GET'' then into_response e (serve_get e co (in_headers req) bucket key)
      else if in_method req = ''HEAD'' then into_response e (head_object_handler e co bucket key)
      else if in_method req = ''PUT'' then into_response e (put_object_handler e co (in_headers req) bucket key (in_body req))
      else into_response e (delete_object_handler e co bucket key))"

definition router :: "env \<Rightarrow> app_state \<Rightarrow> client_request \<Rightarrow> http_response act" where
  "router e app req =
     (case path_params e (in_path req) of
        None \<Rightarrow> fallback_proxy_handler e (cache app) req
      | Some params \<Rightarrow>
          if in_method req \<notin> object_methods then io_return method_not_allowed
          else (case params of
              Inl why \<Rightarrow> io_return (bad_path why)
            | Inr (bucket, key) \<Rightarrow> object_route e (cache app) req bucket key))"

section \<open>Authentication\<close>

text \<open>
  The credentials a verified request carries are put into its extensions, where the handlers
  look them up and pass them on to functions that ignore them.
\<close>

definition s3_auth_middleware ::
  "env \<Rightarrow> verifier option \<Rightarrow> (client_request \<Rightarrow> http_response act) \<Rightarrow> client_request \<Rightarrow> http_response act" where
  "s3_auth_middleware e v next req =
     (case v of
        None \<Rightarrow> next req
      | Some verifier \<Rightarrow>
          (case verify e verifier req of
             Inr creds \<Rightarrow> next req
           | Inl err \<Rightarrow> io_return (error_response e err)))"

definition load_verifier :: "env \<Rightarrow> string option \<Rightarrow> verifier option" where
  "load_verifier e credentials =
     (case Option.bind credentials new_from_str of
        Some v \<Rightarrow> Some v
      | None \<Rightarrow> new_from_env e)"

definition handle_request :: "env \<Rightarrow> app_state \<Rightarrow> verifier option \<Rightarrow> client_request \<Rightarrow> http_response act" where
  "handle_request e app v req = s3_auth_middleware e v (router e app) req"

text \<open>Requests one after the other: a handler that panics loses its connection, not the server.\<close>

fun serve_requests ::
  "env \<Rightarrow> app_state \<Rightarrow> verifier option \<Rightarrow> client_request list \<Rightarrow> world \<Rightarrow> (fail + http_response) list \<times> world" where
  "serve_requests e app v [] w = ([], w)"
| "serve_requests e app v (req # reqs) w =
     (let (res, w1) = handle_request e app v req w;
          (rest, w2) = serve_requests e app v reqs w1
      in (res # rest, w2))"

record server =
  srv_state :: app_state
  srv_verifier :: "verifier option"

text \<open>What \<open>start_server\<close> does before it serves: parse the address, which is \<open>parse_addr\<close>, and bind it.\<close>

definition start_server ::
  "env \<Rightarrow> (string \<Rightarrow> string + string) \<Rightarrow> string \<Rightarrow> coordinator \<Rightarrow> string \<Rightarrow> string \<Rightarrow> string option \<Rightarrow> server act" where
  "start_server e parse_addr addr co endpoint region credentials =
     (let state = \<lparr>cache = co, app_upstream_endpoint = endpoint, app_upstream_region = region\<rparr>;
          v = load_verifier e credentials
      in io_bind (io_lift (parse_addr addr)) (\<lambda>_.
         io_seq (attempt e) (io_return \<lparr>srv_state = state, srv_verifier = v\<rparr>)))"

end
