(* ===== verification/Policy.thy ===== *)
theory Policy
  imports Sample_Env "HOL-Library.Log_Nat" "HOL-Library.Multiset"
begin

text \<open>
  \<open>src/cache/policy.rs\<close>: the eviction of chunks, least recently used first, when the cache has
  grown over its limit.
\<close>

section \<open>The target size\<close>

text \<open>
  \<open>(max_size as f64 * 0.9) as u64\<close>, in exact arithmetic.  \<open>round_f64\<close> rounds a natural number
  to 53 significant bits, to nearest and ties to even.  The constant is the double nearest to
  0.9, which is \<open>8106479329266893 / 2 ^ 53\<close>; the product is rounded once more and the
  conversion to an integer drops the fraction.
\<close>

definition round_f64 :: "nat \<Rightarrow> nat" where
  "round_f64 n =
     (let s = floorlog 2 n - 53; q = n div 2 ^ s; r = n mod 2 ^ s
      in if 2 * r > 2 ^ s \<or> 2 * r = 2 ^ s \<and> odd q \<and> s > 0 then (q + 1) * 2 ^ s else q * 2 ^ s)"

definition nine_tenths :: "u64 \<Rightarrow> u64" where
  "nine_tenths n = of_nat (round_f64 (round_f64 (unat n) * 8106479329266893) div 2 ^ 53)"

record eviction_manager =
  em_storage :: storage
  max_size :: u64
  target_size :: u64

definition eviction_manager_new :: "storage \<Rightarrow> u64 \<Rightarrow> eviction_manager" where
  "eviction_manager_new st mx = \<lparr>em_storage = st, max_size = mx, target_size = nine_tenths mx\<rparr>"

section \<open>A run of the eviction\<close>

type_synonym candidate = "string \<times> u32 \<times> int"

text \<open>The first loop: the total size of all chunks, and the complete ones as candidates.\<close>

fun scan :: "(string \<times> chunk_metadata) list \<Rightarrow> u64 \<Rightarrow> candidate list \<Rightarrow> u64 \<times> candidate list" where
  "scan [] total_size candidates = (total_size, candidates)"
| "scan ((db_key, chunk) # cs) total_size candidates =
     scan cs (total_size + ucast (size_of chunk))
       (if status chunk = Complete
        then candidates @ [(db_key, size_of chunk, last_accessed_at chunk)] else candidates)"

text \<open>The second loop, over the candidates in order.\<close>

fun evict_loop :: "env \<Rightarrow> storage \<Rightarrow> u64 \<Rightarrow> candidate list \<Rightarrow> u64 \<Rightarrow> u64 act" where
  "evict_loop e st bytes_to_evict [] bytes_evicted = io_return bytes_evicted"
| "evict_loop e st bytes_to_evict ((db_key, sz, _) # cands) bytes_evicted =
     (if bytes_evicted \<ge> bytes_to_evict then io_return bytes_evicted
      else case rfind_char (CHR '':'') db_key of
        None \<Rightarrow> evict_loop e st bytes_to_evict cands bytes_evicted
      | Some pos \<Rightarrow>
          (let key = take pos db_key; chunk_idx_str = drop 1 (drop pos db_key)
           in case parse_u64 chunk_idx_str of
                None \<Rightarrow> evict_loop e st bytes_to_evict cands bytes_evicted
              | Some chunk_idx \<Rightarrow>
                  io_seq (io_ignore (delete_chunk_file e st key chunk_idx))
                   (io_bind (io_try (delete_chunk e key chunk_idx)) (\<lambda>r.
                     case r of
                       Inl _ \<Rightarrow> evict_loop e st bytes_to_evict cands bytes_evicted
                     | Inr _ \<Rightarrow> evict_loop e st bytes_to_evict cands (bytes_evicted + ucast sz)))))"

definition check_and_evict :: "env \<Rightarrow> eviction_manager \<Rightarrow> u64 act" where
  "check_and_evict e em =
     io_bind (list_all_chunks e) (\<lambda>cs.
       let (total_size, candidates) = scan cs 0 []
       in if total_size \<le> max_size em then io_return 0
          else evict_loop e (em_storage em) (saturating_sub total_size (target_size em))
                 (sort_key (\<lambda>(_, _, last_accessed). last_accessed) candidates) 0)"

text \<open>One turn of the background loop: an error is logged and the loop goes on.\<close>

definition eviction_tick :: "env \<Rightarrow> eviction_manager \<Rightarrow> unit act" where
  "eviction_tick e em = io_ignore (check_and_evict e em)"

fun eviction_ticks :: "env \<Rightarrow> eviction_manager \<Rightarrow> nat \<Rightarrow> unit act" where
  "eviction_ticks e em 0 = io_return ()"
| "eviction_ticks e em (Suc n) = io_seq (eviction_tick e em) (eviction_ticks e em n)"

section \<open>Specification\<close>

text \<open>
  The candidates a run evicts when nothing fails: from the front, until enough bytes are freed.
\<close>

fun victims :: "nat \<Rightarrow> candidate list \<Rightarrow> candidate list" where
  "victims need [] = []"
| "victims need ((k, s, a) # cs) = (if need = 0 then [] else (k, s, a) # victims (need - unat s) cs)"

definition csize :: "candidate \<Rightarrow> nat" where
  "csize c = unat (fst (snd c))"

definition bytes_of :: "(string \<times> chunk_metadata) list \<Rightarrow> nat" where
  "bytes_of cs = sum_list (map (\<lambda>(_, c). unat (size_of c)) cs)"

definition candidate_of :: "string \<times> chunk_metadata \<Rightarrow> candidate" where
  "candidate_of = (\<lambda>(k, c). (k, size_of c, last_accessed_at c))"

definition candidates_of :: "(string \<times> chunk_metadata) list \<Rightarrow> candidate list" where
  "candidates_of cs = map candidate_of (filter (\<lambda>(_, c). status c = Complete) cs)"

definition lru_order :: "candidate list \<Rightarrow> candidate list" where
  "lru_order cs = sort_key (\<lambda>(_, _, last_accessed). last_accessed) cs"

definition well_keyed :: "candidate list \<Rightarrow> bool" where
  "well_keyed cs \<longleftrightarrow> (\<forall>c \<in> set cs. \<exists>key idx. fst c = chunk_db_key key idx)"

section \<open>Lemmas: victims\<close>

lemma well_keyed_Cons: "well_keyed ((k, s, a) # cs) \<longleftrightarrow> (\<exists>key idx. k = chunk_db_key key idx) \<and> well_keyed cs"
  by (simp add: well_keyed_def)


lemma csize_simp [simp]: "csize (k, s, a) = unat s"
  by (simp add: csize_def)

lemma victims_prefix: "\<exists>rest. cs = victims need cs @ rest"
  by (induction need cs rule: victims.induct) auto

lemma victims_enough: "need \<le> sum_list (map csize (victims need cs)) \<or> victims need cs = cs"
  by (induction need cs rule: victims.induct) auto

lemma victims_minimal: "victims need cs = vs @ [v] \<Longrightarrow> sum_list (map csize vs) < need"
proof (induction need cs arbitrary: vs rule: victims.induct)
  case (1 need)
  then show ?case by simp
next
  case (2 need k s a cs)
  then show ?case
    by (cases vs) (auto split: if_splits simp: less_diff_conv2 dest: spec)
qed

lemma victims_subset: "set (victims need cs) \<subseteq> set cs"
  by (metis Un_upper1 set_append victims_prefix)

text \<open>The front of a sorted list is no newer than the rest.\<close>

lemma lru_order_prefix:
  assumes "lru_order cs = vs @ rest" and "(k, s, a) \<in> set vs" and "(k', s', a') \<in> set rest"
  shows "a \<le> a'"
proof -
  have "sorted (map (\<lambda>(_, _, la). la) (vs @ rest))"
    unfolding assms(1) [symmetric] lru_order_def by (rule sorted_sort_key)
  with assms(2,3) show ?thesis by (force simp: sorted_append)
qed

section \<open>Lemmas: the loops\<close>

lemma scan_eq:
  "scan cs total_size cands =
     (total_size + of_nat (bytes_of cs), cands @ candidates_of cs)"
proof (induction cs total_size cands rule: scan.induct)
  case (1 total_size cands)
  then show ?case by (simp add: bytes_of_def candidates_of_def)
next
  case (2 db_key chunk cs total_size cands)
  then show ?case
    by (simp add: bytes_of_def candidates_of_def candidate_of_def )
qed

lemma split_chunk_db_key [simp]:
  "take (length key) (chunk_db_key key idx) = key"
  "drop (Suc (length key)) (chunk_db_key key idx) = show_u64 idx"
  "drop (Suc 0) (drop (length key) (chunk_db_key key idx)) = show_u64 idx"
  by (simp_all add: chunk_db_key_def)

text \<open>One candidate with a well-formed key: the key and the index are recovered from it.\<close>

lemma evict_loop_step:
  assumes "\<not> bytes_evicted \<ge> need"
  shows "evict_loop e st need ((chunk_db_key key idx, s, a) # cands) bytes_evicted =
    io_seq (io_ignore (delete_chunk_file e st key idx))
      (io_bind (io_try (delete_chunk e key idx)) (\<lambda>r.
        case r of Inl _ \<Rightarrow> evict_loop e st need cands bytes_evicted
        | Inr _ \<Rightarrow> evict_loop e st need cands (bytes_evicted + ucast s)))"
  using assms by (simp add: rfind_chunk_db_key Let_def parse_show_u64)

lemma evict_loop_stop: "need \<le> bytes_evicted \<Longrightarrow> evict_loop e st need cands bytes_evicted = io_return bytes_evicted"
  by (cases cands) auto

declare evict_loop.simps(2) [simp del]

lemma delete_chunk_file_db:
  assumes "delete_chunk_file e st k i w = (r, w')"
  shows "same_db w w'"
proof -
  have "keeps (same_db w) (delete_chunk_file e st k i)" by (rule keeps_files(2)) simp
  from keepsD [OF this _ assms] show ?thesis by simp
qed

lemma ignore_delete_chunk_file:
  obtains w' where "io_ignore (delete_chunk_file e st k i) w = (Inr (), w')" and "same_db w w'"
proof -
  obtain r w' where d: "delete_chunk_file e st k i w = (r, w')" by (cases "delete_chunk_file e st k i w")
  from delete_chunk_file_spec [OF d] have "r = Inr () \<or> (\<exists>m. r = Inl (Error m))" by blast
  with d have "io_ignore (delete_chunk_file e st k i) w = (Inr (), w')"
    by (auto simp: io_ignore_def io_bind_apply io_try_apply)
  then show ?thesis using delete_chunk_file_db [OF d] by (rule that)
qed

text \<open>
  Whatever fails, the second loop ends, only removes entries, and only entries of candidates.
\<close>

lemma evict_loop_safe:
  assumes "db_good e w" and "well_keyed cands" and "evict_loop e st need cands evicted w = (r, w')"
  shows "(\<exists>n. r = Inr n) \<and> db_good e w' \<and> objects w' = objects w \<and>
    (\<exists>K \<subseteq> fst ` set cands. chunk_list e w' = filter (\<lambda>(k, _). k \<notin> K) (chunk_list e w))"
  using assms
proof (induction cands arbitrary: evicted w)
  case Nil
  then show ?case by (auto intro: exI [of _ "{}"])
next
  case (Cons c cands)
  obtain k s a where c: "c = (k, s, a)" by (cases c)
  with Cons.prems(2) obtain key idx where k: "k = chunk_db_key key idx" and wk: "well_keyed cands"
    by (auto simp: well_keyed_Cons)
  have ih: "(\<exists>n. r = Inr n) \<and> db_good e w' \<and> objects w' = objects u \<and>
      (\<exists>K \<subseteq> fst ` set cands. chunk_list e w' = filter (\<lambda>(k, _). k \<notin> K) (chunk_list e u))"
    if "db_good e u" "evict_loop e st need cands b u = (r, w')" for b u
    using Cons.IH [OF that(1) wk that(2)] .
  show ?case
  proof (cases "need \<le> evicted")
    case True
    with Cons.prems show ?thesis by (auto simp: evict_loop_stop intro: exI [of _ "{}"])
  next
    case False
    obtain u where u: "io_ignore (delete_chunk_file e st key idx) w = (Inr (), u)" and same: "same_db w u"
      by (rule ignore_delete_chunk_file)
    then have good: "db_good e u" and list: "chunk_list e u = chunk_list e w" and obj: "objects u = objects w"
      using Cons.prems(1) same_db_views(1) [OF same] same_db_chunk_list [OF same] by (simp_all add: same_db_def)
    from Cons.prems(3) False u have run: "io_bind (io_try (delete_chunk e key idx)) (\<lambda>r. case r of
        Inl _ \<Rightarrow> evict_loop e st need cands evicted
      | Inr _ \<Rightarrow> evict_loop e st need cands (evicted + ucast s)) u = (r, w')"
      by (simp add: c k evict_loop_step io_seq_apply)
    show ?thesis
    proof (cases rule: delete_chunk_cases [of e key idx u])
      case (1 m)
      with run have "evict_loop e st need cands evicted (u\<lparr>ticks := Suc (ticks u)\<rparr>) = (r, w')"
        by (simp add: io_bind_apply io_try_apply)
      from ih [OF _ this] good list obj show ?thesis by (auto simp: c)
    next
      case 2
      let ?v = "u\<lparr>chunks := tbl_remove k (chunks u), ticks := Suc (ticks u)\<rparr>"
      from 2 run have rest: "evict_loop e st need cands (evicted + ucast s) ?v = (r, w')"
        by (simp add: io_bind_apply io_try_apply k)
      have v: "db_good e ?v" "chunk_list e ?v = filter (\<lambda>(k', _). k' \<noteq> k) (chunk_list e w)" "objects ?v = objects w"
        using good list obj chunk_list_remove by simp_all
      from ih [OF v(1) rest] v obtain K where K: "K \<subseteq> fst ` set cands"
        and "chunk_list e w' = filter (\<lambda>(k', _). k' \<notin> K) (filter (\<lambda>(k', _). k' \<noteq> k) (chunk_list e w))"
        and rest: "\<exists>n. r = Inr n" "db_good e w'" "objects w' = objects w"
        by auto
      then have "chunk_list e w' = filter (\<lambda>(k', _). k' \<notin> insert k K) (chunk_list e w)"
        by (simp add: case_prod_unfold conj_commute)
      with K rest show ?thesis by (intro conjI exI [of _ "insert k K"]) (auto simp: c)
    qed
  qed
qed

text \<open>When nothing fails, the second loop removes the entries of the victims and counts their bytes.\<close>

lemma evict_loop_calm:
  assumes "faultless e" and "db_good e w" and "well_keyed cands"
    and "unat evicted + sum_list (map csize cands) < 2 ^ 64"
  shows "\<exists>w'. evict_loop e st need cands evicted w =
      (Inr (evicted + of_nat (sum_list (map csize (victims (unat need - unat evicted) cands)))), w') \<and>
    chunk_list e w' = filter (\<lambda>(k, _). k \<notin> fst ` set (victims (unat need - unat evicted) cands)) (chunk_list e w)"
  using assms(2-4)
proof (induction cands arbitrary: evicted w)
  case Nil
  then show ?case by simp
next
  case (Cons c cands)
  obtain k s a where c: "c = (k, s, a)" by (cases c)
  with Cons.prems(2) obtain key idx where k: "k = chunk_db_key key idx" and wk: "well_keyed cands"
    by (auto simp: well_keyed_Cons)
  show ?case
  proof (cases "need \<le> evicted")
    case True
    then have "unat need - unat evicted = 0" by (simp add: word_le_nat_alt)
    with True show ?thesis by (simp add: c evict_loop_stop)
  next
    case False
    then have pos: "unat need - unat evicted \<noteq> 0" by (simp add: word_le_nat_alt)
    obtain u where u: "io_ignore (delete_chunk_file e st key idx) w = (Inr (), u)" and same: "same_db w u"
      by (rule ignore_delete_chunk_file)
    obtain v where v: "delete_chunk e key idx u = (Inr (), v)"
      and "v = u\<lparr>chunks := tbl_remove k (chunks u), ticks := Suc (ticks u)\<rparr>"
      using assms(1) k by (cases rule: delete_chunk_cases [of e key idx u]) auto
    with Cons.prems(1) have good: "db_good e v"
      and list: "chunk_list e v = filter (\<lambda>(k', _). k' \<noteq> k) (chunk_list e w)"
      using chunk_list_remove same_db_views(1) [OF same] same_db_chunk_list [OF same] by (simp_all add: k)
    from u v False have step: "evict_loop e st need (c # cands) evicted w =
        evict_loop e st need cands (evicted + ucast s) v"
      by (simp add: c k evict_loop_step io_seq_apply io_bind_apply io_try_apply)
    have sum: "unat (evicted + ucast s) = unat evicted + unat s"
      using Cons.prems(3) by (simp add: c unat_word_ariths unsigned_ucast_eq take_bit_nat_eq_self)
    with Cons.prems(3) have bound: "unat (evicted + ucast s) + sum_list (map csize cands) < 2 ^ 64"
      by (simp add: c)
    have "victims (unat need - unat evicted) (c # cands) =
        c # victims (unat need - unat (evicted + ucast s)) cands"
      using pos by (simp add: c sum)
    moreover from Cons.IH [OF good wk bound] obtain w' where
      "evict_loop e st need cands (evicted + ucast s) v = (Inr (evicted + ucast s +
        of_nat (sum_list (map csize (victims (unat need - unat (evicted + ucast s)) cands)))), w')"
      "chunk_list e w' = filter (\<lambda>(k, _). k \<notin> fst ` set (victims (unat need - unat (evicted + ucast s)) cands)) (chunk_list e v)"
      by auto
    ultimately show ?thesis
      unfolding step by (simp add: list c case_prod_unfold conj_commute add.assoc)
  qed
qed

section \<open>Lemmas: a whole run\<close>

lemma candidates_keys:
  "db_good e w \<Longrightarrow> well_keyed (lru_order (candidates_of (chunk_list e w)))"
  by (auto simp: well_keyed_def lru_order_def candidates_of_def candidate_of_def dest: chunk_list_keys)

lemma lru_order_set [simp]: "set (lru_order cs) = set cs"
  and lru_order_mset: "mset (lru_order cs) = mset cs"
  by (simp_all add: lru_order_def)

lemma sum_csize_candidates: "sum_list (map csize (candidates_of cs)) \<le> bytes_of cs"
  by (induction cs) (auto simp: candidates_of_def bytes_of_def candidate_of_def)

lemma sum_csize_lru: "sum_list (map csize (lru_order cs)) = sum_list (map csize cs)"
  by (metis lru_order_mset mset_map sum_mset_sum_list)

lemma check_and_evict_run:
  assumes "list_all_chunks e w = (Inr cs, w1)"
  shows "check_and_evict e em w =
    (if of_nat (bytes_of cs) \<le> max_size em then (Inr 0, w1)
     else evict_loop e (em_storage em) (saturating_sub (of_nat (bytes_of cs)) (target_size em))
       (lru_order (candidates_of cs)) 0 w1)"
  using assms by (simp add: check_and_evict_def io_bind_apply scan_eq lru_order_def)

text \<open>
  The entries of a set of candidates account for their bytes: entries have distinct keys, so
  removing the keys of the victims removes exactly the victims.
\<close>

lemma candidates_Cons: "set (candidates_of (kc # cs)) \<subseteq> insert (candidate_of kc) (set (candidates_of cs))"
  by (auto simp: candidates_of_def)

lemma fst_candidate_of [simp]: "fst (candidate_of kc) = fst kc"
  by (simp add: candidate_of_def case_prod_unfold)

lemma bytes_of_removed:
  assumes "distinct (map fst cs)" and "set vs \<subseteq> set (candidates_of cs)" and "distinct (map fst vs)"
  shows "bytes_of (filter (\<lambda>(k, _). k \<notin> fst ` set vs) cs) + sum_list (map csize vs) = bytes_of cs"
  using assms
proof (induction cs arbitrary: vs)
  case Nil
  then show ?case by (simp add: candidates_of_def bytes_of_def)
next
  case (Cons kc cs)
  obtain k c where kc: "kc = (k, c)" by (cases kc)
  have tail: "fst ` set (candidates_of cs) \<subseteq> fst ` set cs"
    by (force simp: candidates_of_def candidate_of_def)
  show ?case
  proof (cases "k \<in> fst ` set vs")
    case True
    then obtain v where v: "v \<in> set vs" "fst v = k" by auto
    have "v \<notin> set (candidates_of cs)" using Cons.prems(1) tail kc v(2) by auto
    moreover have "v \<in> set (candidates_of (kc # cs))" using Cons.prems(2) v(1) by blast
    ultimately have v_eq: "v = candidate_of kc" using candidates_Cons by blast
    obtain xs ys where vs: "vs = xs @ v # ys" using v(1) by (meson split_list)
    with Cons.prems(3) v have k: "k \<notin> fst ` set (xs @ ys)" by auto
    have "set (xs @ ys) \<subseteq> set (candidates_of cs)"
    proof
      fix x
      assume x: "x \<in> set (xs @ ys)"
      with k have "fst x \<noteq> k" by blast
      then have "x \<noteq> candidate_of kc" by (auto simp: kc)
      moreover from x vs Cons.prems(2) have "x \<in> set (candidates_of (kc # cs))" by auto
      ultimately show "x \<in> set (candidates_of cs)" using candidates_Cons by blast
    qed
    with Cons.IH [of "xs @ ys"] Cons.prems vs
    have "bytes_of (filter (\<lambda>(k, _). k \<notin> fst ` set (xs @ ys)) cs) + sum_list (map csize (xs @ ys)) = bytes_of cs"
      by auto
    moreover have "filter (\<lambda>(k, _). k \<notin> fst ` set vs) cs = filter (\<lambda>(k, _). k \<notin> fst ` set (xs @ ys)) cs"
      using Cons.prems(1) kc vs v(2) by (intro filter_cong) (auto simp: image_iff)
    ultimately show ?thesis
      using True vs v_eq by (simp add: kc bytes_of_def candidate_of_def)
  next
    case False
    then have "set vs \<subseteq> set (candidates_of cs)"
      using Cons.prems(2) candidates_Cons [of kc cs] by (force simp: kc)
    with Cons.IH [of vs] Cons.prems False show ?thesis by (simp add: kc bytes_of_def)
  qed
qed

lemma candidates_distinct:
  "distinct (map fst cs) \<Longrightarrow> distinct (map fst (candidates_of cs))"
proof (induction cs)
  case Nil
  then show ?case by (simp add: candidates_of_def)
next
  case (Cons kc cs)
  then show ?case by (cases kc) (force simp: candidates_of_def candidate_of_def)
qed

lemma victims_distinct:
  assumes "distinct (map fst cs)"
  shows "distinct (map fst (victims need (lru_order (candidates_of cs))))"
proof -
  have "mset (map fst (lru_order (candidates_of cs))) = mset (map fst (candidates_of cs))"
    by (simp add: lru_order_mset)
  with candidates_distinct [OF assms] have "distinct (map fst (lru_order (candidates_of cs)))"
    by (metis mset_eq_imp_distinct_iff)
  moreover obtain rest where "lru_order (candidates_of cs) = victims need (lru_order (candidates_of cs)) @ rest"
    using victims_prefix by blast
  ultimately show ?thesis by (metis distinct_append map_append)
qed

section \<open>Lemmas: the target size\<close>

lemma round_f64_error:
  shows "2 ^ 53 * round_f64 n \<le> (2 ^ 53 + 1) * n" and "(2 ^ 53 - 1) * n \<le> 2 ^ 53 * round_f64 n"
proof -
  define s where "s = floorlog 2 n - 53"
  define q where "q = n div 2 ^ s"
  define r where "r = n mod 2 ^ s"
  have n: "n = q * 2 ^ s + r" and r: "r < 2 ^ s"
    by (simp_all add: q_def r_def div_mult_mod_eq)
  have round: "round_f64 n = (if 2 * r > 2 ^ s \<or> 2 * r = 2 ^ s \<and> odd q \<and> s > 0 then (q + 1) * 2 ^ s else q * 2 ^ s)"
    by (simp add: round_f64_def s_def q_def r_def Let_def)
  have "2 * (2 ^ 53 * round_f64 n) \<le> 2 * ((2 ^ 53 + 1) * n) \<and> 2 * ((2 ^ 53 - 1) * n) \<le> 2 * (2 ^ 53 * round_f64 n)"
  proof (cases "s = 0")
    case True
    with r n round show ?thesis by simp
  next
    case False
    then have "floorlog 2 n = s + 53" and "n > 0" by (auto simp: s_def floorlog_def split: if_splits)
    then have "2 ^ (s + 52) \<le> n" using floorlog_bounds [of n 2] by (simp add: add.commute)
    then have big: "2 ^ 52 * 2 ^ s \<le> n" by (simp add: power_add mult.commute)
    have "2 * (round_f64 n) \<le> 2 * n + 2 ^ s" and "2 * n \<le> 2 * round_f64 n + 2 ^ s"
      unfolding round using r n by (auto simp: algebra_simps)
    then have "2 ^ 53 * (2 * round_f64 n) \<le> 2 ^ 53 * (2 * n + 2 ^ s)"
      and "2 ^ 53 * (2 * n) \<le> 2 ^ 53 * (2 * round_f64 n + 2 ^ s)"
      by (simp_all only: mult_le_mono2)
    with big show ?thesis by (simp add: algebra_simps)
  qed
  then show "2 ^ 53 * round_f64 n \<le> (2 ^ 53 + 1) * n" and "(2 ^ 53 - 1) * n \<le> 2 ^ 53 * round_f64 n" by simp_all
qed

text \<open>The error of the two roundings together, over the exact product.\<close>

lemma scaled_bounds:
  fixes n p x :: nat
  assumes "x = round_f64 n" and "p = round_f64 (x * 8106479329266893)"
  shows "p * 2 ^ 106 \<le> n * (8106479329266893 * (2 ^ 53 + 1) ^ 2)"
    and "n * (8106479329266893 * (2 ^ 53 - 1) ^ 2) \<le> p * 2 ^ 106"
proof -
  have "p * 2 ^ 106 = 2 ^ 53 * (2 ^ 53 * p)" by simp
  also have "\<dots> \<le> 2 ^ 53 * ((2 ^ 53 + 1) * (x * 8106479329266893))"
    unfolding assms(2) by (intro mult_le_mono2 round_f64_error(1))
  also have "\<dots> = (2 ^ 53 + 1) * 8106479329266893 * (2 ^ 53 * x)" by simp
  also have "\<dots> \<le> (2 ^ 53 + 1) * 8106479329266893 * ((2 ^ 53 + 1) * n)"
    unfolding assms(1) by (intro mult_le_mono2 round_f64_error(1))
  finally show "p * 2 ^ 106 \<le> n * (8106479329266893 * (2 ^ 53 + 1) ^ 2)" by simp
  have "n * (8106479329266893 * (2 ^ 53 - 1) ^ 2) = (2 ^ 53 - 1) * 8106479329266893 * ((2 ^ 53 - 1) * n)"
    by simp
  also have "\<dots> \<le> (2 ^ 53 - 1) * 8106479329266893 * (2 ^ 53 * x)"
    unfolding assms(1) by (intro mult_le_mono2 round_f64_error(2))
  also have "\<dots> = 2 ^ 53 * ((2 ^ 53 - 1) * (x * 8106479329266893))" by simp
  also have "\<dots> \<le> 2 ^ 53 * (2 ^ 53 * p)"
    unfolding assms(2) by (intro mult_le_mono2 round_f64_error(2))
  finally show "n * (8106479329266893 * (2 ^ 53 - 1) ^ 2) \<le> p * 2 ^ 106" by simp
qed

lemma nine_tenths_nat:
  "unat (nine_tenths n) = round_f64 (round_f64 (unat n) * 8106479329266893) div 2 ^ 53"
proof -
  let ?p = "round_f64 (round_f64 (unat n) * 8106479329266893)"
  have "?p * 2 ^ 106 \<le> unat n * (8106479329266893 * (2 ^ 53 + 1) ^ 2)" by (rule scaled_bounds(1)) simp_all
  also have "\<dots> \<le> (2 ^ 64 - 1) * (8106479329266893 * (2 ^ 53 + 1) ^ 2)"
    using unat_u64_less [of n] by (intro mult_le_mono1) simp
  finally have "?p < 2 ^ 64 * 2 ^ 53" by simp
  then have "?p div 2 ^ 53 < 2 ^ 64" by (simp add: less_mult_imp_div_less)
  then show ?thesis by (simp add: nine_tenths_def unat_of_nat_u64)
qed

section \<open>Properties\<close>

text \<open>C40. The target size of a new eviction manager is nine tenths of the limit up to the rounding
  of the floating-point computation, and never above the limit: \<open>10 * target\<close> and \<open>9 * max\<close>
  differ by less than ten and a relative error of \<open>2 ^ -48\<close>.\<close>

theorem target_size_bounds:
  "unat (target_size (eviction_manager_new st mx)) \<le> unat mx \<and>
   10 * unat (target_size (eviction_manager_new st mx)) * 2 ^ 48 \<le> unat mx * (9 * 2 ^ 48 + 1) \<and>
   unat mx * (9 * 2 ^ 48 - 1) < 10 * (unat (target_size (eviction_manager_new st mx)) + 1) * 2 ^ 48"
proof -
  define p where "p = round_f64 (round_f64 (unat mx) * 8106479329266893)"
  define t where "t = p div 2 ^ 53"
  have t: "t * 2 ^ 53 \<le> p" "p < (t + 1) * 2 ^ 53"
    unfolding t_def by (simp, metis add.commute dividend_less_div_times mult_Suc plus_1_eq_Suc zero_less_numeral zero_less_power)
  have "p * 2 ^ 106 \<le> unat mx * (8106479329266893 * (2 ^ 53 + 1) ^ 2)"
    and "unat mx * (8106479329266893 * (2 ^ 53 - 1) ^ 2) \<le> p * 2 ^ 106"
    by (rule scaled_bounds [OF refl p_def])+
  with t have "t \<le> unat mx \<and> 10 * t * 2 ^ 48 \<le> unat mx * (9 * 2 ^ 48 + 1) \<and>
      unat mx * (9 * 2 ^ 48 - 1) < 10 * (t + 1) * 2 ^ 48"
    by simp
  then show ?thesis
    by (simp add: eviction_manager_new_def nine_tenths_nat t_def p_def)
qed

text \<open>A cache within its limit is left alone: the run reports 0 bytes and changes neither the
  database nor the files.\<close>

lemma evict_within_limit:
  assumes "db_good e w" and "bytes_of (chunk_list e w) < 2 ^ 64"
    and "bytes_of (chunk_list e w) \<le> unat (max_size em)"
    and "check_and_evict e em w = (Inr n, w')"
  shows "n = 0 \<and> same_db w w' \<and> files w' = files w"
proof (cases rule: list_all_chunks_cases [OF assms(1)])
  case (1 m)
  with assms(4) show ?thesis by (simp add: check_and_evict_def io_bind_apply)
next
  case 2
  with assms(2-4) show ?thesis
    by (auto simp: check_and_evict_run word_le_nat_alt unat_of_nat_u64)
qed

text \<open>C28. Whatever outside calls fail, a run of the eviction removes metadata of complete chunks
  only, never changes an entry, keeps the database well formed and leaves the object table
  alone; chunks that are still downloading stay.\<close>

theorem evict_safe:
  assumes "db_good e w" and "check_and_evict e em w = (r, w')"
  shows "db_good e w' \<and> objects w' = objects w \<and>
    (\<forall>key idx. chunk_of e w' (key, idx) = chunk_of e w (key, idx) \<or>
       chunk_of e w' (key, idx) = None \<and>
       (\<exists>c. chunk_of e w (key, idx) = Some c \<and> status c = Complete))"
proof (cases rule: list_all_chunks_cases [OF assms(1)])
  case (1 m)
  with assms show ?thesis by (auto simp: check_and_evict_def io_bind_apply)
next
  case 2
  let ?w1 = "w\<lparr>ticks := Suc (ticks w)\<rparr>" and ?cs = "chunk_list e w"
  show ?thesis
  proof (cases "of_nat (bytes_of ?cs) \<le> max_size em")
    case True
    with assms 2 show ?thesis by (auto simp: check_and_evict_run)
  next
    case False
    with assms(2) 2 have run: "evict_loop e (em_storage em)
        (saturating_sub (of_nat (bytes_of ?cs)) (target_size em)) (lru_order (candidates_of ?cs)) 0 ?w1 = (r, w')"
      by (simp add: check_and_evict_run)
    have "db_good e ?w1" using assms(1) by simp
    from evict_loop_safe [OF this candidates_keys [OF assms(1)] run]
    obtain K where good: "db_good e w'" and "objects w' = objects w"
      and K: "K \<subseteq> fst ` set (candidates_of ?cs)"
      and list: "chunk_list e w' = filter (\<lambda>(k, _). k \<notin> K) ?cs"
      by auto
    moreover have "chunk_of e w' (key, idx) = chunk_of e w (key, idx) \<or> chunk_of e w' (key, idx) = None \<and>
        (\<exists>c. chunk_of e w (key, idx) = Some c \<and> status c = Complete)" for key idx
    proof -
      let ?k = "chunk_db_key key idx"
      have new: "chunk_of e w' (key, idx) = Some c \<longleftrightarrow> chunk_of e w (key, idx) = Some c \<and> ?k \<notin> K" for c
        using chunk_list_iff [OF good, of key idx c] chunk_list_iff [OF assms(1), of key idx c] by (auto simp: list)
      have "\<exists>c. chunk_of e w (key, idx) = Some c \<and> status c = Complete" if "?k \<in> K"
      proof -
        from that K obtain c where "(?k, c) \<in> set ?cs" "status c = Complete"
          by (force simp: candidates_of_def)
        then show ?thesis using chunk_list_iff [OF assms(1)] by blast
      qed
      with new show ?thesis by (metis not_None_eq)
    qed
    ultimately show ?thesis by simp
  qed
qed

lemma check_and_evict_calm:
  assumes "faultless e" and "db_good e w" and "bytes_of (chunk_list e w) < 2 ^ 64"
    and "unat (max_size em) < bytes_of (chunk_list e w)"
    and "vs = victims (bytes_of (chunk_list e w) - unat (target_size em))
      (lru_order (candidates_of (chunk_list e w)))"
  shows "\<exists>n w'. check_and_evict e em w = (Inr n, w') \<and> unat n = sum_list (map csize vs) \<and>
    chunk_list e w' = filter (\<lambda>(k, _). k \<notin> fst ` set vs) (chunk_list e w)"
proof -
  let ?cs = "chunk_list e w" and ?w1 = "w\<lparr>ticks := Suc (ticks w)\<rparr>"
  let ?need = "saturating_sub (of_nat (bytes_of ?cs)) (target_size em)"
  have need: "unat ?need = bytes_of ?cs - unat (target_size em)"
    using assms(3) by (simp add: unat_saturating_sub unat_of_nat_u64)
  have fits: "sum_list (map csize (lru_order (candidates_of ?cs))) < 2 ^ 64"
    using assms(3) sum_csize_candidates [of ?cs] by (simp add: sum_csize_lru)
  have "list_all_chunks e w = (Inr ?cs, ?w1)"
    using assms(1) by (cases rule: list_all_chunks_cases [OF assms(2)]) auto
  moreover have "\<not> of_nat (bytes_of ?cs) \<le> max_size em"
    using assms(3,4) by (simp add: word_le_nat_alt unat_of_nat_u64)
  ultimately have run: "check_and_evict e em w =
      evict_loop e (em_storage em) ?need (lru_order (candidates_of ?cs)) 0 ?w1"
    by (simp add: check_and_evict_run)
  have "db_good e ?w1" using assms(2) by simp
  from evict_loop_calm [OF assms(1) this candidates_keys [OF assms(2)], of 0 "em_storage em" ?need] fits
  obtain w' where w': "check_and_evict e em w = (Inr (of_nat (sum_list (map csize vs))), w')"
    "chunk_list e w' = filter (\<lambda>(k, _). k \<notin> fst ` set vs) ?cs"
    by (auto simp: run need assms(5))
  have "sum_list (map csize vs) \<le> sum_list (map csize (lru_order (candidates_of ?cs)))"
    unfolding assms(5) by (metis le_add1 map_append sum_list_append victims_prefix)
  with fits have "unat (of_nat (sum_list (map csize vs)) :: u64) = sum_list (map csize vs)"
    by (simp add: unat_of_nat_u64)
  with w' show ?thesis by blast
qed


text \<open>C13. The eviction is least recently used first: when nothing fails, no chunk that was
  removed had been accessed later than a complete chunk that stayed.\<close>

theorem evict_lru:
  assumes "faultless e" and "db_good e w" and "bytes_of (chunk_list e w) < 2 ^ 64"
    and "check_and_evict e em w = (r, w')"
    and "(k, c) \<in> set (chunk_list e w)" and "(k, c) \<notin> set (chunk_list e w')"
    and "(k', c') \<in> set (chunk_list e w')" and "status c' = Complete"
  shows "last_accessed_at c \<le> last_accessed_at c'"
proof (cases "unat (max_size em) < bytes_of (chunk_list e w)")
  case False
  then have "bytes_of (chunk_list e w) \<le> unat (max_size em)" by simp
  with assms(1-4) have "chunk_list e w' = chunk_list e w"
    by (cases rule: list_all_chunks_cases [OF assms(2)])
      (auto simp: check_and_evict_run word_le_nat_alt unat_of_nat_u64)
  with assms(5,6) show ?thesis by simp
next
  case True
  let ?cs = "chunk_list e w"
  define vs where "vs = victims (bytes_of ?cs - unat (target_size em)) (lru_order (candidates_of ?cs))"
  from check_and_evict_calm [OF assms(1-3) True vs_def] assms(4)
  have list: "chunk_list e w' = filter (\<lambda>(k, _). k \<notin> fst ` set vs) ?cs" by auto
  obtain rest where rest: "lru_order (candidates_of ?cs) = vs @ rest"
    unfolding vs_def using victims_prefix by blast
  from assms(5,6) have "k \<in> fst ` set vs" by (simp add: list)
  then obtain s a where v: "(k, s, a) \<in> set vs" by auto
  then have "(k, s, a) \<in> set (candidates_of ?cs)"
    by (metis Un_iff lru_order_set rest set_append)
  then obtain d where "(k, d) \<in> set ?cs" "a = last_accessed_at d"
    by (auto simp: candidates_of_def candidate_of_def)
  moreover have "d = c" using calculation(1) assms(5) chunk_list_distinct [OF assms(2)]
    by (simp add: eq_key_imp_eq_value)
  ultimately have a: "a = last_accessed_at c" by simp
  from assms(7,8) have c': "candidate_of (k', c') \<in> set (candidates_of ?cs)" and "k' \<notin> fst ` set vs"
    by (auto simp: list candidates_of_def)
  then have "candidate_of (k', c') \<in> set rest"
    using rest by (metis Un_iff fst_candidate_of fst_conv image_eqI lru_order_set set_append)
  then show ?thesis
    using lru_order_prefix [OF rest v] a by (simp add: candidate_of_def)
qed

section \<open>The properties on a concrete cache\<close>

text \<open>Two complete chunks of 5 bytes, and a manager that allows 9 bytes and aims at 8.\<close>

abbreviation no_objects :: env where
  "no_objects \<equiv> sample_env (\<lambda>_. None)"

definition old_chunk :: chunk_metadata where
  "old_chunk = \<lparr>size_of = 5, last_accessed_at = 1, status = Complete\<rparr>"

definition new_chunk :: chunk_metadata where
  "new_chunk = \<lparr>size_of = 5, last_accessed_at = 2, status = Complete\<rparr>"

definition two_chunks :: world where
  "two_chunks = with_chunk ''a'' 1 new_chunk (with_chunk ''a'' 0 old_chunk empty_world)"

definition small_manager :: eviction_manager where
  "small_manager = \<lparr>em_storage = \<lparr>cache_dir = [''cache'']\<rparr>, max_size = 9, target_size = 8\<rparr>"

lemma two_chunks_good: "db_good (sample_env objs) two_chunks"
  by (simp add: two_chunks_def with_chunk_good empty_db_good)

lemma two_chunks_list: "chunk_list no_objects two_chunks = [(''a:0'', old_chunk), (''a:1'', new_chunk)]"
  by code_simp

lemma two_chunks_bytes: "bytes_of (chunk_list no_objects two_chunks) = 10"
  by (simp add: two_chunks_list bytes_of_def old_chunk_def new_chunk_def)

lemma evict_safe_witness:
  "\<exists>r w'. check_and_evict no_objects small_manager two_chunks = (r, w') \<and> db_good no_objects w' \<and>
     objects w' = objects two_chunks"
  using evict_safe [OF two_chunks_good [of "\<lambda>_. None"]] by (metis prod.collapse)


lemma small_victims:
  "victims (10 - unat (target_size small_manager)) (lru_order (candidates_of (chunk_list no_objects two_chunks))) = [(''a:0'', 5, 1)]"
  by (simp add: two_chunks_list small_manager_def lru_order_def candidates_of_def candidate_of_def old_chunk_def new_chunk_def)

lemma evict_lru_witness:
  "\<exists>r w'. check_and_evict no_objects small_manager two_chunks = (r, w') \<and>
     (''a:0'', old_chunk) \<notin> set (chunk_list no_objects w') \<and> (''a:1'', new_chunk) \<in> set (chunk_list no_objects w') \<and>
     last_accessed_at old_chunk \<le> last_accessed_at new_chunk"
proof -
  have "unat (max_size small_manager) < bytes_of (chunk_list no_objects two_chunks)"
    by (simp add: two_chunks_bytes small_manager_def)
  from check_and_evict_calm [OF sample_faultless two_chunks_good _ this refl] obtain n w' where
    run: "check_and_evict no_objects small_manager two_chunks = (Inr n, w')"
    and list: "chunk_list no_objects w' = [(''a:1'', new_chunk)]"
    by (auto simp: two_chunks_bytes small_victims) (simp add: two_chunks_list)
  have "status new_chunk = Complete" by (simp add: new_chunk_def)
  with evict_lru [OF sample_faultless two_chunks_good _ run, of "''a:0''" old_chunk "''a:1''" new_chunk] run list
  show ?thesis by (auto simp: two_chunks_bytes) (simp add: two_chunks_list)
qed
end
