(* ===== verification/Config.thy ===== *)
theory Config
  imports World
begin

text \<open>
  \<open>src/config.rs\<close>: the command line and the configuration made of it.  Parsing the command line
  is \<open>clap\<close>'s; its defaults are the program's.  Reading the configuration file and parsing its
  TOML are arguments of \<open>from_cli\<close>.
\<close>

record cli =
  cli_config :: "string option"
  cli_bind_addr :: string
  cli_upstream_endpoint :: "string option"
  cli_backend_endpoint :: "string option"
  cli_upstream_region :: string
  cli_backend_region :: "string option"
  cli_cache_dir :: path
  cli_chunk_size :: u64
  cli_max_cache_size :: u64
  cli_credentials :: "string option"
  cli_backend_access_key :: "string option"
  cli_backend_secret_key :: "string option"
  cli_backend_path_scheme :: string
  cli_backend_v4_auth :: string

text \<open>The arguments of a command line that names none.\<close>

definition default_cli :: cli where
  "default_cli = \<lparr>
     cli_config = None, cli_bind_addr = ''127.0.0.1:8080'',
     cli_upstream_endpoint = None, cli_backend_endpoint = None,
     cli_upstream_region = ''us-east-1'', cli_backend_region = None,
     cli_cache_dir = [''.'', ''cache''],
     cli_chunk_size = 8 * 1024 * 1024, cli_max_cache_size = 50 * 1024 * 1024 * 1024,
     cli_credentials = None, cli_backend_access_key = None, cli_backend_secret_key = None,
     cli_backend_path_scheme = ''true'', cli_backend_v4_auth = ''true''\<rparr>"

record config =
  bind_addr :: string
  cfg_upstream_endpoint :: string
  cfg_upstream_region :: string
  cfg_cache_dir :: path
  cfg_chunk_size :: u64
  cfg_max_cache_size :: u64
  cfg_credentials :: "string option"
  backend_access_key :: "string option"
  backend_secret_key :: "string option"
  backend_path_scheme :: bool
  backend_v4_auth :: bool

definition from_cli ::
  "(string \<Rightarrow> string + string) \<Rightarrow> (string \<Rightarrow> string + config) \<Rightarrow> cli \<Rightarrow> string + config" where
  "from_cli read_to_string parse_toml c =
     (case cli_config c of
        Some config_path \<Rightarrow>
          (case read_to_string config_path of Inl err \<Rightarrow> Inl err | Inr content \<Rightarrow> parse_toml content)
      | None \<Rightarrow>
          (case (case cli_backend_endpoint c of Some ep \<Rightarrow> Some ep | None \<Rightarrow> cli_upstream_endpoint c) of
             None \<Rightarrow> Inl ''Backend/Upstream endpoint must be specified via CLI, environment variable, or config file.''
           | Some endpoint \<Rightarrow> Inr \<lparr>
               bind_addr = cli_bind_addr c,
               cfg_upstream_endpoint = endpoint,
               cfg_upstream_region = (case cli_backend_region c of Some r \<Rightarrow> r | None \<Rightarrow> cli_upstream_region c),
               cfg_cache_dir = cli_cache_dir c,
               cfg_chunk_size = cli_chunk_size c,
               cfg_max_cache_size = cli_max_cache_size c,
               cfg_credentials = cli_credentials c,
               backend_access_key = cli_backend_access_key c,
               backend_secret_key = cli_backend_secret_key c,
               backend_path_scheme = (to_lowercase (cli_backend_path_scheme c) = ''true''),
               backend_v4_auth = (to_lowercase (cli_backend_v4_auth c) = ''true'')\<rparr>))"

section \<open>Lemmas\<close>

lemma from_cli_endpoint:
  assumes "cli_config c = None" and "cli_backend_endpoint c = Some ep \<or> cli_backend_endpoint c = None \<and> cli_upstream_endpoint c = Some ep"
  shows "\<exists>cfg. from_cli rd tm c = Inr cfg \<and> cfg_upstream_endpoint cfg = ep \<and> cfg_chunk_size cfg = cli_chunk_size c \<and>
    cfg_max_cache_size cfg = cli_max_cache_size c \<and> cfg_credentials cfg = cli_credentials c \<and> cfg_cache_dir cfg = cli_cache_dir c"
  using assms by (auto simp: from_cli_def)

end
