(* ===== verification/Startup.thy ===== *)
theory Startup
  imports Server Policy Config
begin

text \<open>
  \<open>src/main.rs\<close>: the components put together.  Setting up the logging and the runtime is left out;
  the background task of the eviction is the value returned beside the server.
\<close>

definition coordinator_new :: "storage \<Rightarrow> proxy_client \<Rightarrow> u64 \<Rightarrow> coordinator" where
  "coordinator_new st pc cs = \<lparr>co_storage = st, proxy = pc, chunk_size = cs\<rparr>"

definition storage_new :: "path \<Rightarrow> storage" where
  "storage_new dir = \<lparr>cache_dir = dir\<rparr>"

text \<open>\<open>std::fs::create_dir_all\<close>; directories are not part of the world.\<close>

definition create_dir_all :: "env \<Rightarrow> path \<Rightarrow> unit act" where
  "create_dir_all e dir = attempt e"

definition run_main ::
  "env \<Rightarrow> (string \<Rightarrow> string + string) \<Rightarrow> (string \<Rightarrow> string + config) \<Rightarrow> (string \<Rightarrow> string + string) \<Rightarrow> cli \<Rightarrow>
   (server \<times> eviction_manager) act" where
  "run_main e read_to_string parse_toml parse_addr c =
     io_bind (io_lift (from_cli read_to_string parse_toml c)) (\<lambda>cfg.
     let dir = cfg_cache_dir cfg; st = storage_new dir
     in io_seq (create_dir_all e dir)
       (io_seq (create_dir_all e (dir @ [''data'']))
       (io_seq (metadata_db_new e)
       (io_seq (cleanup_temp_files e st)
       (let pc = proxy_client_new e (cfg_upstream_endpoint cfg) (cfg_upstream_region cfg) (backend_access_key cfg)
              (backend_secret_key cfg) (backend_path_scheme cfg) (backend_v4_auth cfg);
            co = coordinator_new st pc (cfg_chunk_size cfg);
            em = eviction_manager_new st (cfg_max_cache_size cfg)
        in io_bind (start_server e parse_addr (bind_addr cfg) co (cfg_upstream_endpoint cfg) (cfg_upstream_region cfg)
              (cfg_credentials cfg)) (\<lambda>srv. io_return (srv, em)))))))"

end
