(* ===== verification/Answers.thy ===== *)
theory Answers
  imports Server
begin

text \<open>
  What the answers of the handlers say: the range of a request, the head and body of a GET, the
  errors, the order in which a DELETE acts, and the headers the catch-all proxy passes on.
\<close>

section \<open>Ranges\<close>

lemma starts_with_bytes [simp]: "starts_with (''bytes='' @ s) ''bytes=''" "drop 6 (''bytes='' @ s) = s"
  by (rule starts_with_append) simp

lemma show_u64_no_dash: "CHR ''-'' \<notin> set (show_u64 n)"
  using show_u64_digits [of "CHR ''-''" n] by auto

lemma show_u64_nonempty [simp]: "show_u64 n \<noteq> []"
  by (simp add: show_u64_def)

lemma trim_show_u64 [simp]: "trim (show_u64 n) = show_u64 n"
  using show_u64_visible by (rule trim_visible)

lemma trim_Nil [simp]: "trim [] = []"
  by (rule trim_visible) simp

lemma split_dash: "CHR ''-'' \<notin> set a \<Longrightarrow> CHR ''-'' \<notin> set b \<Longrightarrow> split_char (CHR ''-'') (a @ ''-'' @ b) = [a, b]"
  by (simp add: split_char_append split_char_no_sep)

lemma parse_range_dash:
  assumes "CHR ''-'' \<notin> set a" and "CHR ''-'' \<notin> set b"
  shows "parse_range (''bytes='' @ a @ ''-'' @ b) n =
    (let start_str = trim a; end_str = trim b
     in if start_str = [] \<and> end_str = [] then None
        else if start_str = [] then Option.bind (parse_u64 end_str) (\<lambda>num. Some (saturating_sub n num, n))
        else if end_str = [] then
          Option.bind (parse_u64 start_str) (\<lambda>start. if start \<ge> n then Some (n, n) else Some (start, n))
        else Option.bind (parse_u64 start_str) (\<lambda>start. Option.bind (parse_u64 end_str) (\<lambda>end_incl.
          let fin = min (end_incl + 1) n in if start > fin then None else Some (start, fin))))"
  using split_dash [OF assms] by (simp add: parse_range_def starts_with_append [of "''bytes=''", simplified])

lemma parse_range_closed:
  "parse_range (''bytes='' @ show_u64 a @ ''-'' @ show_u64 b) n =
     (if a \<le> b + 1 \<and> a \<le> n then Some (a, min (b + 1) n) else None)"
  unfolding parse_range_dash [OF show_u64_no_dash show_u64_no_dash]
  by (auto simp: parse_show_u64 Let_def not_le min_def)

lemma show_u64_numbers:
  "show_u64 2 = ''2''" "show_u64 9 = ''9''" "show_u64 (- 1) = ''18446744073709551615''"
proof -
  have m: "unat (- 1 :: u64) = 18446744073709551615" by (simp add: unsigned_minus_1_eq_mask mask_eq_exp_minus_1)
  show "show_u64 2 = ''2''" "show_u64 9 = ''9''" "show_u64 (- 1) = ''18446744073709551615''"
    unfolding show_u64_def m by (simp add: show_nat.simps digit_char_def, code_simp)+
qed

text \<open>C35. The three forms of a range of bytes, on every number of 64 bits: a first and a last byte, a
  first byte, and a number of bytes at the end.\<close>

theorem parse_range_forms:
  "parse_range (''bytes='' @ show_u64 a @ ''-'' @ show_u64 b) n =
     (if a \<le> b + 1 \<and> a \<le> n then Some (a, min (b + 1) n) else None) \<and>
   parse_range (''bytes='' @ show_u64 a @ ''-'') n = Some (min a n, n) \<and>
   parse_range (''bytes='' @ ''-'' @ show_u64 b) n = Some (saturating_sub n b, n)"
proof (intro conjI)
  show "parse_range (''bytes='' @ show_u64 a @ ''-'' @ show_u64 b) n =
     (if a \<le> b + 1 \<and> a \<le> n then Some (a, min (b + 1) n) else None)"
    by (rule parse_range_closed)
  show "parse_range (''bytes='' @ show_u64 a @ ''-'') n = Some (min a n, n)"
    using parse_range_dash [OF show_u64_no_dash, of "[]" a n] linear [of a n]
    by (auto simp: parse_show_u64 Let_def min_def)
  show "parse_range (''bytes='' @ ''-'' @ show_u64 b) n = Some (saturating_sub n b, n)"
    using parse_range_dash [OF _ show_u64_no_dash, of "[]" b n]
    by (simp add: parse_show_u64 Let_def)
qed

lemma parse_range_within:
  "parse_range range_val file_size = Some (start, fin) \<Longrightarrow> start \<le> fin \<and> fin \<le> file_size"
  unfolding parse_range_def
  by (auto simp: Let_def saturating_sub_le not_le not_less bind_eq_Some_conv split: if_splits list.splits)

text \<open>C36. Every range that is accepted lies within the object: the start is not after the end, and the
  end not after the size.\<close>

theorem parse_range_bounds:
  assumes "parse_range range_val file_size = Some (start, fin)"
  shows "start \<le> fin \<and> fin \<le> file_size"
  using assms by (rule parse_range_within)

theorem parse_range_bounds_witness:
  "parse_range ''bytes=2-9'' 7 = Some (2, 7) \<and> (2 :: u64) \<le> 7 \<and> (7 :: u64) \<le> 7"
proof -
  have "parse_range ''bytes=2-9'' 7 = Some (2, 7)"
    using parse_range_closed [of 2 9 7] by (simp add: show_u64_numbers)
  from this parse_range_bounds [OF this] show ?thesis by (rule conjI)
qed


section \<open>GET\<close>

lemma s3_bind_okE:
  assumes "s3_bind m f w = (Inr (Inr y), w'')"
  obtains x w' where "m w = (Inr (Inr x), w')" and "f x w' = (Inr (Inr y), w'')"
  using assms by (auto simp: s3_bind_def io_bind_apply split: prod.splits sum.splits)

lemma or_error_okE:
  assumes "or_error f m w = (Inr (Inr x), w')"
  obtains "m w = (Inr x, w')"
  using assms by (auto simp: or_error_def io_bind_apply io_try_apply split: prod.splits sum.splits fail.splits)

text \<open>A header that was inserted reads back as its text.\<close>

lemma insert_header_get:
  assumes "insert_header e n s h w = (Inr h', w')"
  shows "w' = w" and "m \<noteq> n \<Longrightarrow> header_str e h' m = header_str e h m"
    and "header_values_ok e \<Longrightarrow> printable s \<Longrightarrow> header_str e h' n = Some s"
proof -
  from assms obtain v where "hv_parse e s = Inr v" "h' = hm_insert n v h" "w' = w"
    by (cases "hv_parse e s") (auto simp: insert_header_def io_bind_apply)
  then show "w' = w" and "m \<noteq> n \<Longrightarrow> header_str e h' m = header_str e h m"
    and "header_values_ok e \<Longrightarrow> printable s \<Longrightarrow> header_str e h' n = Some s"
    by (auto simp: header_str_def header_values_ok_def)
qed

lemma keeps_is_hot:
  assumes "\<And>w n. P w \<Longrightarrow> P (w\<lparr>ticks := n\<rparr>)"
  shows "keeps P (is_hot e k)"
  unfolding is_hot_def get_object_def get_chunk_def
  by (intro keeps_intros keeps_attempt assms)

lemma keeps_insert_header [keeps_intros]: "keeps P (insert_header e n s h)"
  unfolding insert_header_def by (intro keeps_intros)

lemma get_headers_world: "get_headers e k meta start fin st w = (r, w') \<Longrightarrow> same_state w w'"
proof (rule keeps_same_state)
  show "keeps (same_state w) (get_headers e k meta start fin st)"
    unfolding get_headers_def Let_def by (intro keeps_intros keeps_is_hot) simp
qed

lemma get_headers_length:
  assumes "get_headers e k meta start fin st w = (Inr h, w')" and "header_values_ok e"
  shows "header_str e h ''content-length'' = Some (show_u64 (saturating_sub fin start))"
    "st = 206 \<Longrightarrow> header_str e h ''content-range'' = Some (content_range start fin (content_length meta))"
proof -
  from assms(1) obtain h4 h5 h6 hot w1 w2 w3 w4 w5
    where h5: "insert_header e ''content-length'' (show_u64 (saturating_sub fin start)) h4 w1 = (Inr h5, w2)"
    and h6: "(if st = 206 then insert_header e ''content-range'' (content_range start fin (content_length meta)) h5
        else io_return h5) w2 = (Inr h6, w3)"
    and h: "insert_header e ''x-s3xc-cached'' (cache_status hot) h6 w5 = (Inr h, w')"
    unfolding get_headers_def Let_def by (elim io_bind_okE) blast
  have "header_str e h6 ''content-length'' = header_str e h5 ''content-length''"
    using h6 insert_header_get(2) [of e "''content-range''" _ h5 w2 h6 w3 "''content-length''"] by (auto split: if_splits)
  then show "header_str e h ''content-length'' = Some (show_u64 (saturating_sub fin start))"
    using insert_header_get(2) [OF h] insert_header_get(3) [OF h5 assms(2)] by simp
  have "printable (content_range start fin (content_length meta))" by (simp add: content_range_def visible_def)
  then show "header_str e h ''content-range'' = Some (content_range start fin (content_length meta))" if "st = 206"
    using that insert_header_get(2) [OF h] insert_header_get(3) [OF _ assms(2)] h6 by simp
qed

text \<open>The parts of an answer to a GET.\<close>

lemma serve_get_parts:
  assumes "serve_get e co hs bucket key w = (Inr (Inr resp), w')"
  obtains meta w1 start fin s w2 w3 where "get_object_metadata e co bucket key w = (Inr meta, w1)"
    and "chosen_range e hs (content_length meta) = (start, fin, rs_status resp)"
    and "read_range e co bucket key start fin w1 = (Inr s, w2)"
    and "get_headers e (object_key bucket key) meta start fin (rs_status resp) w2 = (Inr (rs_headers resp), w3)"
    and "run_stream e co bucket key s w3 = (Inr (rs_body resp), w')"
proof -
  from assms obtain head stream w4 ps where g: "get_object_handler e co hs bucket key w = (Inr (Inr (head, stream)), w4)"
    and r: "run_stream e co bucket key stream w4 = (Inr ps, w')" and resp: "resp = head\<lparr>rs_body := ps\<rparr>"
    unfolding serve_get_def by (auto elim!: s3_bind_okE io_bind_okE)
  from g obtain meta w1 where m: "get_object_metadata e co bucket key w = (Inr meta, w1)"
    and g1: "(let (start, fin, status_code) = chosen_range e hs (content_length meta)
     in s3_bind (or_error Internal (read_range e co bucket key start fin)) (\<lambda>stream.
        io_bind (get_headers e (object_key bucket key) meta start fin status_code) (\<lambda>headers.
        io_return (Inr (\<lparr>rs_status = status_code, rs_headers = headers, rs_body = []\<rparr>, stream))))) w1
      = (Inr (Inr (head, stream)), w4)"
    unfolding get_object_handler_def by (elim s3_bind_okE or_error_okE)
  obtain start fin st where rng: "chosen_range e hs (content_length meta) = (start, fin, st)" by (rule prod_cases3)
  with g1 obtain w2 h where "read_range e co bucket key start fin w1 = (Inr stream, w2)"
    and "get_headers e (object_key bucket key) meta start fin st w2 = (Inr h, w4)"
    and "head = \<lparr>rs_status = st, rs_headers = h, rs_body = []\<rparr>"
    by (auto elim!: s3_bind_okE or_error_okE io_bind_okE)
  with that [OF m] rng r resp show ?thesis by simp
qed

text \<open>
  What a server that holds the object answers to a GET: the status and the body.
\<close>

definition origin_get :: "env \<Rightarrow> header_map \<Rightarrow> bytes \<Rightarrow> nat \<times> bytes" where
  "origin_get e hs content =
     (let (start, fin, st) = chosen_range e hs (of_nat (length content))
      in (st, slice (unat start) (unat fin) content))"

lemma chosen_range_within:
  "chosen_range e hs n = (start, fin, st) \<Longrightarrow> start \<le> fin \<and> fin \<le> n \<and> (st = 200 \<and> start = 0 \<and> fin = n \<or> st = 206)"
  unfolding chosen_range_def
  by (auto simp: bind_eq_Some_conv dest: parse_range_within split: option.splits)

lemma serve_get_origin:
  assumes "faultless e" and "hash_ok e" and "db_good e w" and "chunk_size co \<noteq> 0" and "header_values_ok e"
    and "version_ok e co (object_key bucket key) content tag w"
    and "honours_ranges e (proxy co) bucket key content" and "reports e (proxy co) bucket key content tag"
    and "length content + unat (chunk_size co) \<le> 2 ^ 64"
    and "serve_get e co hs bucket key w = (Inr (Inr resp), w')" and "collect [] (rs_body resp) = Inr got"
  shows "(rs_status resp, got) = origin_get e hs content \<and>
    header_str e (rs_headers resp) ''content-length'' = Some (show_nat (length got))"
proof -
  let ?k = "object_key bucket key"
  from serve_get_parts [OF assms(10)] obtain meta w1 start fin s w2 w3 where
    m: "get_object_metadata e co bucket key w = (Inr meta, w1)"
    and rng: "chosen_range e hs (content_length meta) = (start, fin, rs_status resp)"
    and rd: "read_range e co bucket key start fin w1 = (Inr s, w2)"
    and h: "get_headers e ?k meta start fin (rs_status resp) w2 = (Inr (rs_headers resp), w3)"
    and run: "run_stream e co bucket key s w3 = (Inr (rs_body resp), w')" .
  from refresh_head [OF m] head_object_reports [OF assms(8)] have len: "unat (content_length meta) = length content" by blast
  then have n: "content_length meta = of_nat (length content)"
    using unat_u64_less [of "content_length meta"] by (simp add: word_unat_eq_iff unat_of_nat_u64)
  have g1: "db_good e w1" using refresh_world [OF assms(3) m] by simp
  have v1: "version_ok e co ?k content tag w1" using refresh_keeps_version [OF assms(1-4,8,6) m] by simp
  from read_range_meta [OF rd] obtain meta' where
    m2: "get_object_metadata e co bucket key w1 = (Inr meta', w2)"
    and s: "s = (if start \<ge> min fin (content_length meta') then OneEmpty
      else ChunkReads (read_plan (chunk_size co) (content_length meta') start (min fin (content_length meta'))))"
    and c: "start < min fin (content_length meta') \<longrightarrow> chunk_size co \<noteq> 0" .
  from refresh_head [OF m2] head_object_reports [OF assms(8)] have len2: "unat (content_length meta') = length content" by blast
  note same = get_headers_world [OF h]
  have "db_good e w3" using refresh_world [OF g1 m2] by (intro touched_db_good [OF _ same]) simp
  moreover have "coherent e co ?k content w3"
    using refresh_keeps_version [OF assms(1,2) g1 assms(4,8) v1 m2] same by (blast intro: coherent_touched same_state_touched)
  ultimately have got: "got = slice (unat start) (unat fin) content"
    using run_stream_slice [OF _ _ assms(7) len2 assms(9) c s run assms(11)] by blast
  have "unat fin \<le> length content" using chosen_range_within [OF rng] len by (simp add: word_le_nat_alt)
  then have "length got = unat (saturating_sub fin start)" by (simp add: got length_slice unat_saturating_sub)
  with get_headers_length(1) [OF h assms(5)] rng got show ?thesis by (simp add: origin_get_def n show_u64_def)
qed


section \<open>Errors\<close>

lemma head_object_missing:
  assumes "prepare_request e pc ''HEAD'' (Some bucket) key [] None w = (Inr rq, w)"
    and "upstream e (ticks w) rq = Inr rs" and "rs_status rs = 404"
  shows "\<exists>w'. head_object e pc bucket key w = (Inl (Error ''NoSuchKey: Object not found''), w')"
  using assms by (simp add: head_object_def io_bind_apply http_send_def is_success_def)

text \<open>C24. An object upstream does not have is reported as such: when upstream answers the HEAD with 404,
  a GET and a HEAD are answered with 404 and the error document of NoSuchKey, without a look at
  the cache, which stays as it is.\<close>

theorem missing_key_not_found:
  assumes "prepare_request e (proxy co) ''HEAD'' (Some bucket) key [] None w = (Inr rq, w)"
    and "upstream e (ticks w) rq = Inr rs" and "rs_status rs = 404"
  shows "\<exists>w'. into_response e (serve_get e co hs bucket key) w = (Inr (error_response e NoSuchKey), w') \<and>
    into_response e (head_object_handler e co bucket key) w = (Inr (error_response e NoSuchKey), w') \<and>
    rs_status (error_response e NoSuchKey) = 404 \<and> same_state w w'"
proof -
  from head_object_missing [OF assms] obtain w' where h: "head_object e (proxy co) bucket key w = (Inl (Error ''NoSuchKey: Object not found''), w')" ..
  have "contains_str ''NoSuchKey: Object not found'' ''NoSuchKey''" by (simp add: starts_with_def)
  then have "not_found_or_internal ''NoSuchKey: Object not found'' = NoSuchKey" by (simp add: not_found_or_internal_def)
  then show ?thesis
    using h requests_same_state(1) [OF h]
    by (intro exI [of _ w'])
      (simp add: into_response_def serve_get_def get_object_handler_def head_object_handler_def s3_bind_def or_error_def
        get_object_metadata_def Let_def io_bind_apply io_try_apply error_response_def to_xml_def error_parts_def split: prod.split)
qed

section \<open>DELETE\<close>

lemma insert_header_world: "insert_header e n s h w = (r, w') \<Longrightarrow> w' = w"
  by (cases "hv_parse e s") (auto simp: insert_header_def io_bind_apply)

lemma delete_parts:
  assumes "delete_object_handler e co bucket key w = (r, w')"
  shows "(\<exists>f w1. upstream_delete_object e (proxy co) bucket key w = (Inl f, w1) \<and> w' = w1 \<and> (\<forall>resp. r \<noteq> Inr (Inr resp))) \<or>
    (\<exists>w1 r1. upstream_delete_object e (proxy co) bucket key w = (Inr (), w1) \<and>
       drop_cache_for_object e co bucket key w1 = (r1, w') \<and>
       (\<forall>resp. r = Inr (Inr resp) \<longrightarrow> r1 = Inr () \<and> rs_status resp = 204 \<and> rs_body resp = []))"
proof -
  obtain r0 w1 where u: "upstream_delete_object e (proxy co) bucket key w = (r0, w1)" by (cases "upstream_delete_object e (proxy co) bucket key w")
  obtain r1 w2 where d: "drop_cache_for_object e co bucket key w1 = (r1, w2)" by (cases "drop_cache_for_object e co bucket key w1")
  show ?thesis
  proof (cases r0)
    case (Inl f)
    with assms u show ?thesis
      by (cases f) (auto simp: delete_object_handler_def s3_bind_def or_error_def io_bind_apply io_try_apply)
  next
    case (Inr x)
    with assms u d have "w' = w2 \<and> (\<forall>resp. r = Inr (Inr resp) \<longrightarrow> r1 = Inr () \<and> rs_status resp = 204 \<and> rs_body resp = [])"
      by (cases r1; cases "insert_header e ''content-length'' ''0'' [] w2")
        (auto simp: delete_object_handler_def s3_bind_def or_error_def io_bind_apply io_try_apply
          dest: insert_header_world split: fail.splits sum.splits)
    with u d Inr show ?thesis by auto
  qed
qed

lemma dropped_chunk: "only_dropped e st k w w' \<Longrightarrow> chunk_of e w' x = chunk_of e w x \<or> chunk_of e w' x = None"
  unfolding only_dropped_def by (elim conjE allE [of _ x] disjE) simp_all

lemma refreshed_chunk: "only_refreshed e st k w w' \<Longrightarrow> chunk_of e w' x = chunk_of e w x \<or> chunk_of e w' x = None"
  unfolding only_refreshed_def by (elim conjE allE [of _ x] disjE) simp_all

text \<open>C22. A DELETE goes to upstream first, whatever fails: when upstream does not carry it out, the
  client gets an error and the cache is left as it is.\<close>

theorem delete_upstream_first:
  assumes "upstream_delete_object e (proxy co) bucket key w = (Inl f, w1)"
    and "delete_object_handler e co bucket key w = (r, w')"
  shows "same_state w w' \<and> (\<forall>resp. r \<noteq> Inr (Inr resp))"
  using delete_parts [OF assms(2)] assms(1) requests_same_state(4) [OF assms(1)] by auto


section \<open>The headers the catch-all proxy passes on\<close>

lemma hm_get_copy_headers:
  "hm_get (copy_headers hs out) n = (if forwarded n \<and> map_of (rev hs) n \<noteq> None then map_of (rev hs) n else hm_get out n)"
proof (induction hs out rule: copy_headers.induct)
  case (2 name val hs out)
  then show ?case by (auto simp: map_add_def split: option.split)
qed simp

lemma fallback_sent:
  assumes "fallback_proxy_handler e co req w = (r, w')" and "rq \<in> set (sent w')"
  shows "rq \<in> set (sent w) \<or>
    (\<exists>m bucket kq body w1. prepare_request e (proxy co) m bucket kq (copy_headers (in_headers req) []) body w = (Inr rq, w1))"
proof -
  let ?body = "to_bytes (in_body req) (10 * 1024 * 1024)"
  let ?p = "proxy_request e (proxy co) (in_method req) (path_and_query req) (in_headers req) ?body"
  obtain bucket kq where tgt: "split_target (path_and_query req) = (bucket, kq)" by (cases "split_target (path_and_query req)")
  obtain r1 w1 where p: "?p w = (r1, w1)" by (cases "?p w")
  with assms(1) have w1: "w1 = w'"
    by (auto simp: fallback_proxy_handler_def io_bind_apply io_try_apply split: sum.splits fail.splits)
  show ?thesis
  proof (cases "method_parse e (in_method req)")
    case (Inl err)
    with p w1 assms(2) tgt show ?thesis by (simp add: proxy_request_def io_bind_apply)
  next
    case (Inr m)
    let ?prep = "prepare_request e (proxy co) m bucket kq (copy_headers (in_headers req) []) ?body"
    have "snd (?prep w) = w" by (rule prepare_request_world)
    then obtain r2 where prep: "?prep w = (r2, w)" by (cases "?prep w") simp
    show ?thesis
    proof (cases r2)
      case (Inl f)
      with p w1 assms(2) tgt Inr prep show ?thesis by (simp add: proxy_request_def io_bind_apply)
    next
      case (Inr q)
      with p w1 tgt \<open>method_parse e (in_method req) = Inr m\<close> prep have "sent w' = sent w @ [q]"
        by (auto simp: proxy_request_def io_bind_apply http_send_def)
      with assms(2) prep Inr show ?thesis by auto
    qed
  qed
qed


section \<open>Witnesses\<close>

lemma is_hot_returns: "\<exists>b w'. is_hot e k w = (Inr b, w')"
proof -
  have c: "\<exists>b w'. io_bind (io_try (get_chunk e k 0)) (\<lambda>c. io_return (chunk_is_complete c)) u = (Inr b, w')" for u
    using try_returns [OF errors_metadata(4), of e k 0 u] by (cases "io_try (get_chunk e k 0) u") (auto simp: io_bind_apply)
  from try_returns [OF errors_metadata(1), of e k w] obtain r u where r: "io_try (get_object e k) w = (Inr r, u)"
    by (cases "io_try (get_object e k) w") auto
  show ?thesis
  proof (cases "\<exists>m. r = Inr (Some m) \<and> content_length m \<noteq> 0")
    case True
    then obtain m where "r = Inr (Some m)" "content_length m \<noteq> 0" by blast
    with r c [of u] show ?thesis by (simp add: is_hot_def io_bind_apply [of "io_try (get_object e k)"])
  next
    case False
    with r show ?thesis by (auto simp: is_hot_def io_bind_apply [of "io_try (get_object e k)"] split: sum.splits option.splits)
  qed
qed

lemma sample_insert_header [simp]: "insert_header (sample_env objs) n s h w = (Inr (hm_insert n s h), w)"
  by (simp add: insert_header_def io_bind_apply)

lemma sample_get_headers: "\<exists>h w'. get_headers (sample_env objs) k meta start fin st w = (Inr h, w')"
proof -
  obtain b u where "is_hot (sample_env objs) k w = (Inr b, u)" using is_hot_returns by blast
  then show ?thesis by (simp add: get_headers_def Let_def io_bind_apply)
qed

abbreviation empty_bucket :: env where
  "empty_bucket \<equiv> sample_env (\<lambda>_. None)"

text \<open>The bytes 1 to 4 of the sample object, asked for when the cache holds another version.\<close>

abbreviation a_range :: header_map where
  "a_range \<equiv> [(''range'', ''bytes=1-4'')]"

lemma a_chosen_range: "chosen_range an_env a_range 7 = (1, 5, 206)"
proof -
  have n: "show_u64 1 = ''1''" "show_u64 4 = ''4''"
    unfolding show_u64_def by (simp add: show_nat.simps digit_char_def, code_simp)+
  have "parse_range ''bytes=1-4'' 7 = Some (1, 5)"
    using parse_range_closed [of 1 4 7] by (simp add: n)
  then show ?thesis by (simp add: chosen_range_def header_str_def hm_get_def)
qed

lemma cold_serve_get:
  assumes g: "get_object_metadata an_env a_coordinator ''b'' ''k'' w = (Inr the_meta, w1)"
    and w1: "db_good an_env w1" "\<And>i. chunk_of an_env w1 (object_key ''b'' ''k'', i) = None"
  shows "\<exists>h w'. serve_get an_env a_coordinator a_range ''b'' ''k'' w =
     (Inr (Inr \<lparr>rs_status = 206, rs_headers = h, rs_body = [Inr ''bc'', Inr ''de'']\<rparr>), w')"
proof -
  let ?k = "object_key ''b'' ''k''"
  have cs: "chunk_size a_coordinator \<noteq> 0" by simp
  from sample_head_k obtain u where "head_object an_env (proxy a_coordinator) ''b'' ''k'' w1 = (Inr the_meta, u)" ..
  from refresh_returns [OF sample_faultless sample_hash_ok w1(1) cs this] obtain w2
    where g2: "get_object_metadata an_env a_coordinator ''b'' ''k'' w1 = (Inr the_meta, w2)" ..
  note rw = refresh_world [OF w1(1) g2]
  obtain h w3 where h: "get_headers an_env ?k the_meta 1 5 206 w2 = (Inr h, w3)" using sample_get_headers by blast
  note s = get_headers_world [OF h]
  have "db_good an_env w3" using rw by (intro touched_db_good [OF _ s]) simp
  moreover have "chunk_of an_env w3 (?k, i) = None" for i
  proof -
    have "chunk_of an_env w3 = chunk_of an_env w2" using s by (auto simp: same_state_def chunk_of_def fun_eq_iff)
    with refreshed_chunk [OF conjunct2 [OF rw], of "(?k, i)"] w1(2) show ?thesis by auto
  qed
  ultimately obtain w4 where run: "run_stream an_env a_coordinator ''b'' ''k'' (ChunkReads (read_plan 3 7 1 5)) w3 = (Inr [Inr ''bc'', Inr ''de''], w4)"
    using sample_stream_cold by blast
  have "content_length the_meta = 7" by (simp add: the_meta_def)
  with g read_range_old [OF g2] h run a_chosen_range show ?thesis
    by (simp add: serve_get_def get_object_handler_def s3_bind_def or_error_def io_bind_apply io_try_apply)
qed

lemma sample_serve_get:
  "\<exists>h w'. serve_get an_env a_coordinator a_range ''b'' ''k'' old_cache =
     (Inr (Inr \<lparr>rs_status = 206, rs_headers = h, rs_body = [Inr ''bc'', Inr ''de'']\<rparr>), w')"
  using sample_refresh_old cold_serve_get by metis


theorem missing_key_not_found_witness:
  "\<exists>w'. into_response empty_bucket (serve_get empty_bucket a_coordinator [] ''b'' ''k'') empty_world =
      (Inr (error_response empty_bucket NoSuchKey), w') \<and> same_state empty_world w'"
proof -
  have p: "prepare_request empty_bucket (proxy a_coordinator) ''HEAD'' (Some ''b'') ''k'' [] None empty_world =
      (Inr (sample_request ''HEAD'' ''b'' ''k'' [] NoBody), empty_world)"
    using sample_prepare [of "''k''" "\<lambda>_. None" "''HEAD''" "''b''" "[]" None empty_world] by simp
  have u: "upstream empty_bucket (ticks empty_world) (sample_request ''HEAD'' ''b'' ''k'' [] NoBody) = Inr (answer 404 [] [])"
    by (simp add: serve_def sample_request_def)
  from missing_key_not_found [OF p u] show ?thesis by (auto simp: answer_def)
qed

theorem delete_upstream_first_witness:
  "\<exists>r w'. delete_object_handler down_env a_coordinator ''b'' ''k'' full_cache = (r, w') \<and> same_state full_cache w'"
proof -
  obtain r w' where d: "delete_object_handler down_env a_coordinator ''b'' ''k'' full_cache = (r, w')"
    by (cases "delete_object_handler down_env a_coordinator ''b'' ''k'' full_cache")
  obtain r1 w1 where u: "upstream_delete_object down_env (proxy a_coordinator) ''b'' ''k'' full_cache = (r1, w1)"
    by (cases "upstream_delete_object down_env (proxy a_coordinator) ''b'' ''k'' full_cache")
  have "\<forall>x. r1 \<noteq> Inr x"
  proof (intro allI notI)
    fix x assume "r1 = Inr x"
    with u show False
      by (auto simp: upstream_delete_object_def http_send_def down_env_def elim!: io_bind_okE)
  qed
  then obtain f where "r1 = Inl f" by (cases r1) auto
  with u have "upstream_delete_object down_env (proxy a_coordinator) ''b'' ''k'' full_cache = (Inl f, w1)" by simp
  from delete_upstream_first [OF this d] d show ?thesis by blast
qed



end
