(* ===== verification/Copies.thy ===== *)
theory Copies
  imports Writes
begin

text \<open>
  What \<open>copy_cache_object\<close> leaves in the cache when nothing fails: the recorded metadata of the
  source, and over the chunks of the destination the complete chunks of the source.
\<close>

section \<open>One chunk\<close>

lemma calm_attempt: "disk_calm e \<Longrightarrow> attempt e w = (Inr (), w\<lparr>ticks := Suc (ticks w)\<rparr>)"
  by (simp add: disk_calm_def attempt_def)

lemma path_exists_calm:
  "disk_calm e \<Longrightarrow> path_exists e p w = (Inr (files w p \<noteq> None), w\<lparr>ticks := Suc (ticks w)\<rparr>)"
  by (simp add: path_exists_def io_bind_apply io_try_apply calm_attempt)

text \<open>Copying a file onto itself empties it.\<close>

lemma fs_copy_calm:
  assumes "disk_calm e" and "files w p = Some d"
  shows "fs_copy e p q w =
    (Inr (), w\<lparr>files := (files w)(q \<mapsto> if p = q then [] else d), ticks := Suc (Suc (Suc (ticks w)))\<rparr>)"
  using assms
  by (simp add: fs_copy_def fs_open_def fs_create_def io_bind_apply io_seq_apply calm_attempt)
    (simp add: fs_write_all_def disk_calm_def)

definition copied_files :: "env \<Rightarrow> storage \<Rightarrow> string \<Rightarrow> string \<Rightarrow> u64 \<Rightarrow> world \<Rightarrow> path \<Rightarrow> bytes option" where
  "copied_files e st k k' i w =
     (case files w (chunk_path e st k i) of
        None \<Rightarrow> files w
      | Some d \<Rightarrow> (files w)(chunk_path e st k' i \<mapsto> if chunk_path e st k i = chunk_path e st k' i then [] else d))"

lemma copy_file_calm:
  assumes "disk_calm e"
  shows "\<exists>n. io_bind (path_exists e (chunk_path e st k i)) (\<lambda>ex.
        if ex then io_seq (ensure_parent_dir e (chunk_path e st k' i)) (fs_copy e (chunk_path e st k i) (chunk_path e st k' i))
        else io_return ()) w = (Inr (), w\<lparr>files := copied_files e st k k' i w, ticks := n\<rparr>)"
proof (cases "files w (chunk_path e st k i)")
  case None
  then show ?thesis by (auto simp: io_bind_apply path_exists_calm [OF assms] copied_files_def)
next
  case (Some d)
  then show ?thesis
    by (auto simp: io_bind_apply io_seq_apply path_exists_calm [OF assms] ensure_parent_dir_def calm_attempt [OF assms]
        fs_copy_calm [OF assms] copied_files_def)
qed

abbreviation complete_at :: "env \<Rightarrow> world \<Rightarrow> string \<Rightarrow> u64 \<Rightarrow> bool" where
  "complete_at e w k i \<equiv> chunk_is_complete (Inr (chunk_of e w (k, i)))"

lemma copy_chunk_faultless:
  assumes "faultless e" and "db_good e w"
  shows "\<exists>w'. copy_chunk e co k k' i w = (Inr (), w') \<and> db_good e w' \<and> object_of e w' = object_of e w \<and>
    chunk_of e w' = (if complete_at e w k i then (chunk_of e w)((k', i) := chunk_of e w (k, i)) else chunk_of e w) \<and>
    files w' = (if complete_at e w k i then copied_files e (co_storage co) k k' i w else files w)"
proof -
  let ?p = "chunk_path e (co_storage co) k i" and ?q = "chunk_path e (co_storage co) k' i"
  let ?w1 = "w\<lparr>ticks := Suc (ticks w)\<rparr>"
  note calm = faultless_calm [OF assms(1)]
  have get: "get_chunk e k i w = (Inr (chunk_of e w (k, i)), ?w1)"
    using get_chunk_cases [OF assms(2), of k i] assms(1) by metis
  show ?thesis
  proof (cases "complete_at e w k i")
    case False
    with get assms(2) show ?thesis by (auto simp: copy_chunk_def io_bind_apply chunk_is_complete_def split: option.splits)
  next
    case True
    then obtain c where c: "chunk_of e w (k, i) = Some c" "status c = Complete"
      by (auto simp: chunk_is_complete_def split: option.splits)
    obtain n where copy: "io_bind (path_exists e ?p) (\<lambda>ex.
        if ex then io_seq (ensure_parent_dir e ?q) (fs_copy e ?p ?q) else io_return ()) ?w1 =
        (Inr (), w\<lparr>files := copied_files e (co_storage co) k k' i w, ticks := n\<rparr>)"
      using copy_file_calm [OF calm, of "co_storage co" k i k' ?w1] by (auto simp: copied_files_def cong: option.case_cong)
    let ?w2 = "w\<lparr>files := copied_files e (co_storage co) k k' i w, ticks := n\<rparr>"
    obtain r w3 where put: "put_chunk e k' i c ?w2 = (r, w3)" by (cases "put_chunk e k' i c ?w2")
    have g2: "db_good e ?w2" using assms(2) by simp
    have "r = Inr () \<and> files w3 = files ?w2 \<and> objects w3 = objects ?w2"
      using put_chunk_cases [of e k' i c ?w2] put assms(1) by cases auto
    with put_chunk_cell [OF g2 put] assms(1) get copy put c True show ?thesis
      by (auto simp: copy_chunk_def Let_def io_bind_apply [of "get_chunk e k i"] io_seq_apply object_of_def)
  qed
qed

section \<open>The loop\<close>

lemma copy_loop:
  assumes "faultless e" and "hash_ok e" and "db_good e w" and "hash_hex e k \<noteq> hash_hex e k'"
  shows "\<exists>w'. io_for (copy_chunk e co k k') is w = (Inr (), w') \<and> db_good e w' \<and> object_of e w' = object_of e w \<and>
    (\<forall>i. chunk_of e w' (k', i) = (if i \<in> set is \<and> complete_at e w k i then chunk_of e w (k, i) else chunk_of e w (k', i))) \<and>
    (\<forall>x. fst x \<noteq> k' \<longrightarrow> chunk_of e w' x = chunk_of e w x) \<and>
    file_of e (co_storage co) k w' = file_of e (co_storage co) k w \<and>
    (\<forall>i. file_of e (co_storage co) k' w' i = (if i \<in> set is \<and> complete_at e w k i \<and> file_of e (co_storage co) k w i \<noteq> None
      then file_of e (co_storage co) k w i else file_of e (co_storage co) k' w i))"
  using assms(3)
proof (induction "is" arbitrary: w)
  case Nil
  then show ?case by simp
next
  case (Cons j js)
  have kk: "k \<noteq> k'" using assms(4) by auto
  from copy_chunk_faultless [OF assms(1) Cons.prems, of co k k' j] obtain w1 where
    c: "copy_chunk e co k k' j w = (Inr (), w1)" and g1: "db_good e w1" and o1: "object_of e w1 = object_of e w"
    and ch: "chunk_of e w1 = (if complete_at e w k j then (chunk_of e w)((k', j) := chunk_of e w (k, j)) else chunk_of e w)"
    and fl: "files w1 = (if complete_at e w k j then copied_files e (co_storage co) k k' j w else files w)" by blast
  have src: "chunk_of e w1 (k, i) = chunk_of e w (k, i)" for i using ch kk by simp
  have f1: "file_of e (co_storage co) k w1 i = file_of e (co_storage co) k w i" for i
    using fl assms(4) by (auto simp: file_of_def copied_files_def chunk_path_inject [OF assms(2)] split: option.splits)
  have f2: "file_of e (co_storage co) k' w1 i = (if i = j \<and> complete_at e w k j \<and> file_of e (co_storage co) k w j \<noteq> None
      then file_of e (co_storage co) k w j else file_of e (co_storage co) k' w i)" for i
    using fl assms(4) by (auto simp: file_of_def copied_files_def chunk_path_inject [OF assms(2)] split: option.splits)
  from Cons.IH [OF g1] obtain w2 where "io_for (copy_chunk e co k k') js w1 = (Inr (), w2)" and "db_good e w2"
    and "object_of e w2 = object_of e w1"
    and "\<forall>i. chunk_of e w2 (k', i) = (if i \<in> set js \<and> complete_at e w1 k i then chunk_of e w1 (k, i) else chunk_of e w1 (k', i))"
    and "\<forall>x. fst x \<noteq> k' \<longrightarrow> chunk_of e w2 x = chunk_of e w1 x"
    and "file_of e (co_storage co) k w2 = file_of e (co_storage co) k w1"
    and "\<forall>i. file_of e (co_storage co) k' w2 i = (if i \<in> set js \<and> complete_at e w1 k i \<and> file_of e (co_storage co) k w1 i \<noteq> None
      then file_of e (co_storage co) k w1 i else file_of e (co_storage co) k' w1 i)" by blast
  with c o1 ch src f1 f2 show ?case
    by (intro exI [of _ w2]) (auto simp: io_seq_apply fun_eq_iff simp del: split_paired_All)
qed


text \<open>Over its own chunks a copy keeps the entries and empties the files.\<close>

lemma self_copy_loop:
  assumes "faultless e" and "hash_ok e" and "db_good e w"
  shows "\<exists>w'. io_for (copy_chunk e co k k) is w = (Inr (), w') \<and> db_good e w' \<and> chunk_of e w' = chunk_of e w \<and>
    (\<forall>i. file_of e (co_storage co) k w' i = (if i \<in> set is \<and> complete_at e w k i \<and> file_of e (co_storage co) k w i \<noteq> None
      then Some [] else file_of e (co_storage co) k w i))"
  using assms(3)
proof (induction "is" arbitrary: w)
  case Nil
  then show ?case by simp
next
  case (Cons j js)
  from copy_chunk_faultless [OF assms(1) Cons.prems, of co k k j] obtain w1 where
    c: "copy_chunk e co k k j w = (Inr (), w1)" and g1: "db_good e w1"
    and ch: "chunk_of e w1 = (if complete_at e w k j then (chunk_of e w)((k, j) := chunk_of e w (k, j)) else chunk_of e w)"
    and fl: "files w1 = (if complete_at e w k j then copied_files e (co_storage co) k k j w else files w)" by blast
  have ch1: "chunk_of e w1 = chunk_of e w" using ch by (simp add: fun_eq_iff)
  have f1: "file_of e (co_storage co) k w1 i = (if i = j \<and> complete_at e w k j \<and> file_of e (co_storage co) k w j \<noteq> None
      then Some [] else file_of e (co_storage co) k w i)" for i
    using fl by (auto simp: file_of_def copied_files_def chunk_path_inject [OF assms(2)] split: option.splits)
  from Cons.IH [OF g1] obtain w2 where "io_for (copy_chunk e co k k) js w1 = (Inr (), w2)" and "db_good e w2"
    and "chunk_of e w2 = chunk_of e w1"
    and "\<forall>i. file_of e (co_storage co) k w2 i = (if i \<in> set js \<and> complete_at e w1 k i \<and> file_of e (co_storage co) k w1 i \<noteq> None
      then Some [] else file_of e (co_storage co) k w1 i)" by blast
  with c ch1 f1 show ?case by (intro exI [of _ w2]) (auto simp: io_seq_apply fun_eq_iff)
qed

section \<open>The whole copy\<close>

lemma copy_start:
  assumes "faultless e" and "db_good e w" and "chunk_size co \<noteq> 0"
    and "object_of e w (object_key sb sk) = Some m"
  shows "\<exists>n w0. copy_cache_object e co sb sk db dk w =
      io_for (copy_chunk e co (object_key sb sk) (object_key db dk)) (u64_range 0 n) w0 \<and>
    set (u64_range 0 n) = {i. unat i * unat (chunk_size co) < unat (content_length m)} \<and>
    db_good e w0 \<and> chunk_of e w0 = chunk_of e w \<and> files w0 = files w \<and>
    object_of e w0 = (object_of e w)(object_key db dk \<mapsto> m)"
proof -
  let ?k = "object_key sb sk" and ?k' = "object_key db dk"
  let ?w1 = "w\<lparr>ticks := Suc (ticks w)\<rparr>"
  have get: "get_object e ?k w = (Inr (Some m), ?w1)"
    using get_object_cases [OF assms(2), of ?k] assms(1,4) by metis
  obtain r w2 where put: "put_object e ?k' m ?w1 = (r, w2)" by (cases "put_object e ?k' m ?w1")
  have fr: "r = Inr () \<and> files w2 = files w \<and> chunk_of e w2 = chunk_of e w"
    using put_object_cases [of e ?k' m ?w1] put assms(1) by cases auto
  from put_object_cell [OF _ put] assms(2) fr
  have w2: "db_good e w2" "object_of e w2 = (object_of e w)(?k' \<mapsto> m)" by auto
  obtain n where "num_chunks (content_length m) (chunk_size co) w2 = (Inr n, w2)"
    and "set (u64_range 0 n) = {i. unat i * unat (chunk_size co) < unat (content_length m)}"
    using num_chunks_cases [of "content_length m" "chunk_size co" w2] assms(3) by blast
  with get put fr w2 show ?thesis
    by (intro exI [of _ n] exI [of _ w2]) (simp add: copy_cache_object_def Let_def io_bind_apply io_seq_apply)
qed

lemma copy_effect:
  assumes "faultless e" and "hash_ok e" and "db_good e w" and "chunk_size co \<noteq> 0"
    and "object_of e w (object_key sb sk) = Some m"
    and "hash_hex e (object_key sb sk) \<noteq> hash_hex e (object_key db dk)"
  defines "k \<equiv> object_key sb sk" and "k' \<equiv> object_key db dk" and "st \<equiv> co_storage co"
  shows "\<exists>w'. copy_cache_object e co sb sk db dk w = (Inr (), w') \<and> db_good e w' \<and>
    object_of e w' = (object_of e w)(k' \<mapsto> m) \<and>
    (\<forall>i. chunk_of e w' (k', i) = (if unat i * unat (chunk_size co) < unat (content_length m) \<and> complete_at e w k i
       then chunk_of e w (k, i) else chunk_of e w (k', i))) \<and>
    (\<forall>x. fst x \<noteq> k' \<longrightarrow> chunk_of e w' x = chunk_of e w x) \<and> file_of e st k w' = file_of e st k w \<and>
    (\<forall>i. file_of e st k' w' i = (if unat i * unat (chunk_size co) < unat (content_length m) \<and> complete_at e w k i \<and>
       file_of e st k w i \<noteq> None then file_of e st k w i else file_of e st k' w i))"
proof -
  from copy_start [OF assms(1,3,4,5), of db dk] obtain n w0 where
    run: "copy_cache_object e co sb sk db dk w = io_for (copy_chunk e co k k') (u64_range 0 n) w0"
    and set: "set (u64_range 0 n) = {i. unat i * unat (chunk_size co) < unat (content_length m)}"
    and w0: "db_good e w0" "chunk_of e w0 = chunk_of e w" "files w0 = files w" "object_of e w0 = (object_of e w)(k' \<mapsto> m)"
    unfolding k_def k'_def by blast
  have f0: "file_of e st x w0 = file_of e st x w" for x using w0(3) by (simp add: file_of_def fun_eq_iff)
  have "hash_hex e k \<noteq> hash_hex e k'" using assms(6) by (simp add: k_def k'_def)
  from copy_loop [OF assms(1,2) w0(1) this, of co "u64_range 0 n"] show ?thesis
    unfolding run set w0(2,4) f0 st_def [symmetric] mem_Collect_eq .
qed

text \<open>C19. When nothing fails, a copy of an object whose chunks are all in the cache leaves the
  destination with the metadata of the source and every chunk of the same contents in the cache,
  and the source as it was.\<close>

theorem copy_fills_destination:
  assumes "faultless e" and "hash_ok e" and "db_good e w" and "chunk_size co \<noteq> 0"
    and "hash_hex e (object_key sb sk) \<noteq> hash_hex e (object_key db dk)"
    and "object_of e w (object_key sb sk) = Some m" and "unat (content_length m) = length content"
    and "coherent e co (object_key sb sk) content w"
    and "\<And>i. unat i * unat (chunk_size co) < length content \<Longrightarrow> cached e co (object_key sb sk) i w"
  shows "\<exists>w'. copy_cache_object e co sb sk db dk w = (Inr (), w') \<and>
    object_of e w' = (object_of e w)(object_key db dk \<mapsto> m) \<and>
    coherent e co (object_key db dk) content w' \<and>
    coherent e co (object_key sb sk) content w' \<and>
    (\<forall>i. unat i * unat (chunk_size co) < length content \<longrightarrow>
       cached e co (object_key db dk) i w' \<and> cached e co (object_key sb sk) i w')"
proof -
  let ?k = "object_key sb sk" and ?k' = "object_key db dk" and ?st = "co_storage co" and ?cs = "unat (chunk_size co)"
  from assms(5) have kk: "?k \<noteq> ?k'" by auto
  from copy_effect [OF assms(1-4,6,5)] obtain w' where run: "copy_cache_object e co sb sk db dk w = (Inr (), w')"
    and ob: "object_of e w' = (object_of e w)(?k' \<mapsto> m)" and ck': "\<forall>i. chunk_of e w' (?k', i) = (if unat i * ?cs < unat (content_length m) \<and> complete_at e w ?k i
       then chunk_of e w (?k, i) else chunk_of e w (?k', i))"
    and ck: "\<forall>x. fst x \<noteq> ?k' \<longrightarrow> chunk_of e w' x = chunk_of e w x"
    and fk: "file_of e ?st ?k w' = file_of e ?st ?k w"
    and fk': "\<forall>i. file_of e ?st ?k' w' i = (if unat i * ?cs < unat (content_length m) \<and> complete_at e w ?k i \<and>
       file_of e ?st ?k w i \<noteq> None then file_of e ?st ?k w i else file_of e ?st ?k' w i)" by (elim exE conjE) rule
  have src: "chunk_of e w' (?k, i) = chunk_of e w (?k, i)" for i using ck kk by (simp del: split_paired_All)
  have full: "\<exists>c d. chunk_of e w (?k, i) = Some c \<and> status c = Complete \<and> file_of e ?st ?k w i = Some d"
    if "unat i * ?cs < length content" for i
    using assms(9) [OF that] by (auto simp: cached_def)
  have eq: "chunk_of e w' (?k', i) = chunk_of e w (?k, i) \<and> file_of e ?st ?k' w' i = file_of e ?st ?k w i"
    if "unat i * ?cs < length content" for i
    using full [OF that] that ck' fk' assms(7) by (auto simp: chunk_is_complete_def)
  have "coherent e co ?k' content w'" "coherent e co ?k content w'"
    using assms(8) eq src fk by (auto simp: coherent_def)
  moreover have "cached e co ?k' i w' \<and> cached e co ?k i w'" if "unat i * ?cs < length content" for i
    using assms(9) [OF that] eq [OF that] src fk by (simp add: cached_def)
  ultimately show ?thesis using run ob by blast
qed

text \<open>C20. A copy does not drop what the cache holds of the destination: a chunk that the source has
  not in the cache keeps the bytes of the old destination, under the metadata of the source, and
  a later refresh that finds the same etag and length upstream keeps it too.\<close>

theorem copy_keeps_stale_chunks:
  assumes "faultless e" and "hash_ok e" and "db_good e w" and "chunk_size co \<noteq> 0"
    and "hash_hex e (object_key sb sk) \<noteq> hash_hex e (object_key db dk)"
    and "object_of e w (object_key sb sk) = Some m"
    and "chunk_of e w (object_key sb sk, i) = None"
    and "cached e co (object_key db dk) i w" and "file_of e (co_storage co) (object_key db dk) w i = Some old"
  shows "\<exists>w'. copy_cache_object e co sb sk db dk w = (Inr (), w') \<and>
    object_of e w' (object_key db dk) = Some m \<and> cached e co (object_key db dk) i w' \<and>
    file_of e (co_storage co) (object_key db dk) w' i = Some old \<and>
    (\<forall>meta w''. get_object_metadata e co db dk w' = (Inr meta, w'') \<and> etag meta = etag m \<and>
       content_length meta = content_length m \<longrightarrow>
       cached e co (object_key db dk) i w'' \<and> file_of e (co_storage co) (object_key db dk) w'' i = Some old)"
proof -
  let ?k = "object_key sb sk" and ?k' = "object_key db dk" and ?st = "co_storage co" and ?cs = "unat (chunk_size co)"
  from copy_effect [OF assms(1-4,6,5)] obtain w' where run: "copy_cache_object e co sb sk db dk w = (Inr (), w')"
    and g: "db_good e w'"
    and ob: "object_of e w' = (object_of e w)(?k' \<mapsto> m)"
    and ck': "\<forall>i. chunk_of e w' (?k', i) = (if unat i * ?cs < unat (content_length m) \<and> complete_at e w ?k i
       then chunk_of e w (?k, i) else chunk_of e w (?k', i))"
    and fk': "\<forall>i. file_of e ?st ?k' w' i = (if unat i * ?cs < unat (content_length m) \<and> complete_at e w ?k i \<and>
       file_of e ?st ?k w i \<noteq> None then file_of e ?st ?k w i else file_of e ?st ?k' w i)" by (elim exE conjE) rule
  from assms(7) ck' fk' have keep: "chunk_of e w' (?k', i) = chunk_of e w (?k', i)"
    "file_of e ?st ?k' w' i = Some old" using assms(9) by (simp_all add: chunk_is_complete_def)
  with assms(8) have c: "cached e co ?k' i w'" by (simp add: cached_def)
  have "cached e co ?k' i w'' \<and> file_of e ?st ?k' w'' i = Some old"
    if "get_object_metadata e co db dk w' = (Inr meta, w'')" "etag meta = etag m" "content_length meta = content_length m"
    for meta w''
  proof -
    have "chunk_of e w'' = chunk_of e w' \<and> files w'' = files w'"
      by (rule refresh_faultless(2) [OF assms(1,2) g assms(4) that(1)]) (simp add: ob that(2,3))
    with c keep show ?thesis by (simp add: cached_def file_of_def)
  qed
  with run ob c keep show ?thesis by auto
qed

text \<open>C21. A copy of an object onto itself empties the file of each of its chunks in the cache, which
  stays marked complete: \<open>tokio::fs::copy\<close> truncates the file it is about to read.\<close>

theorem copy_onto_itself_empties:
  assumes "faultless e" and "hash_ok e" and "db_good e w" and "chunk_size co \<noteq> 0"
    and "object_of e w (object_key b k) = Some m"
    and "unat i * unat (chunk_size co) < unat (content_length m)" and "cached e co (object_key b k) i w"
  shows "\<exists>w'. copy_cache_object e co b k b k w = (Inr (), w') \<and> cached e co (object_key b k) i w' \<and>
    file_of e (co_storage co) (object_key b k) w' i = Some []"
proof -
  let ?k = "object_key b k" and ?st = "co_storage co"
  from copy_start [OF assms(1,3,4,5), of b k] obtain n w0 where
    run: "copy_cache_object e co b k b k w = io_for (copy_chunk e co ?k ?k) (u64_range 0 n) w0"
    and set: "set (u64_range 0 n) = {i. unat i * unat (chunk_size co) < unat (content_length m)}"
    and w0: "db_good e w0" "chunk_of e w0 = chunk_of e w" "files w0 = files w" by blast
  have f0: "file_of e ?st ?k w0 = file_of e ?st ?k w" using w0(3) by (simp add: file_of_def fun_eq_iff)
  from assms(7) have c: "complete_at e w ?k i" "file_of e ?st ?k w i \<noteq> None"
    by (auto simp: cached_def chunk_is_complete_def)
  from self_copy_loop [OF assms(1,2) w0(1), of co ?k "u64_range 0 n"] obtain w' where
    "io_for (copy_chunk e co ?k ?k) (u64_range 0 n) w0 = (Inr (), w')" "chunk_of e w' = chunk_of e w0"
    "file_of e ?st ?k w' i = Some []"
    using c assms(6) unfolding set w0(2) f0 by auto
  with run w0(2) assms(7) show ?thesis by (simp add: cached_def)
qed

section \<open>The properties on concrete copies\<close>

text \<open>The digest of the sample environment tells the keys apart.\<close>

lemma sample_hash_ne: "hash_hex an_env (object_key ''b'' ''k'') \<noteq> hash_hex an_env (object_key ''b'' ''c'')"
  by (simp add: hash_hex_def object_key_def hex_pad_def hex_digit_def)

lemma copy_fills_destination_witness:
  "\<exists>w'. copy_cache_object an_env a_coordinator ''b'' ''k'' ''b'' ''c'' full_cache = (Inr (), w') \<and>
     object_of an_env w' (object_key ''b'' ''c'') = Some the_meta \<and>
     coherent an_env a_coordinator (object_key ''b'' ''c'') ''abcdefg'' w' \<and>
     cached an_env a_coordinator (object_key ''b'' ''c'') 2 w'"
proof -
  have "chunk_size a_coordinator \<noteq> 0" "unat (content_length the_meta) = length ''abcdefg''"
    by (simp_all add: the_meta_def)
  from copy_fills_destination [OF sample_faultless sample_hash_ok full_cache_good this(1) sample_hash_ne full_cache_views(1)
      this(2) full_cache_coherent full_cache_cached]
  show ?thesis by (auto dest!: spec [of _ 2])
qed

text \<open>The source is known but not in the cache; the destination is.\<close>

definition cold_source :: world where
  "cold_source = with_object (object_key ''b'' ''c'') (the_meta\<lparr>etag := Some ''t2''\<rparr>) full_cache"

lemma cold_source_views:
  "db_good an_env cold_source"
  "object_of an_env cold_source (object_key ''b'' ''c'') = Some (the_meta\<lparr>etag := Some ''t2''\<rparr>)"
  "chunk_of an_env cold_source (object_key ''b'' ''c'', 0) = None"
  "cached an_env a_coordinator (object_key ''b'' ''k'') 0 cold_source"
  "file_of an_env (co_storage a_coordinator) (object_key ''b'' ''k'') cold_source 0 = Some ''abc''"
proof -
  have "object_key ''b'' ''c'' \<noteq> object_key ''b'' ''k''" by (simp add: object_key_def)
  then show "chunk_of an_env cold_source (object_key ''b'' ''c'', 0) = None"
    by (simp add: cold_source_def full_cache_def add_chunk_def with_views)
  show "cached an_env a_coordinator (object_key ''b'' ''k'') 0 cold_source"
    using full_cache_cached [of 0] by (simp add: cached_def cold_source_def with_views)
qed (simp_all add: cold_source_def with_good full_cache_good with_views full_cache_views)

lemma copy_keeps_stale_chunks_witness:
  "\<exists>w'. copy_cache_object an_env a_coordinator ''b'' ''c'' ''b'' ''k'' cold_source = (Inr (), w') \<and>
     object_of an_env w' (object_key ''b'' ''k'') = Some (the_meta\<lparr>etag := Some ''t2''\<rparr>) \<and>
     file_of an_env (co_storage a_coordinator) (object_key ''b'' ''k'') w' 0 = Some ''abc''"
proof -
  have "chunk_size a_coordinator \<noteq> 0" by simp
  from copy_keeps_stale_chunks [OF sample_faultless sample_hash_ok cold_source_views(1) this
      sample_hash_ne [symmetric] cold_source_views(2-5)]
  show ?thesis by blast
qed

lemma copy_onto_itself_empties_witness:
  "\<exists>w'. copy_cache_object an_env a_coordinator ''b'' ''k'' ''b'' ''k'' full_cache = (Inr (), w') \<and>
     cached an_env a_coordinator (object_key ''b'' ''k'') 1 w' \<and>
     file_of an_env (co_storage a_coordinator) (object_key ''b'' ''k'') w' 1 = Some []"
proof -
  have "chunk_size a_coordinator \<noteq> 0" "unat (1 :: u64) * unat (chunk_size a_coordinator) < unat (content_length the_meta)"
    "unat (1 :: u64) * 3 < 7" by (simp_all add: the_meta_def)
  from copy_onto_itself_empties [OF sample_faultless sample_hash_ok full_cache_good this(1) full_cache_views(1) this(2)
      full_cache_cached [OF this(3)]]
  show ?thesis .
qed

end
