(* ===== verification/Service.thy ===== *)
theory Service
  imports Startup Answers Copies
begin

text \<open>
  The running service: requests and turns of the eviction, in any order, on one cache.  What
  holds at every moment is proved once for all requests, in a locale whose laws say what the
  calls below the handlers may do to the world, and interpreted on two invariants: the database
  is well formed, and the cache never holds a chunk of another version of an object under the
  metadata of the one upstream has.
\<close>

section \<open>Events\<close>

text \<open>
  A request is served whole, its body included, before the next event; the eviction runs between
  requests.
\<close>

datatype service_event = Request client_request | EvictionTurn

definition serve_event :: "env \<Rightarrow> server \<Rightarrow> eviction_manager \<Rightarrow> service_event \<Rightarrow> world \<Rightarrow> world" where
  "serve_event e srv em ev w =
     (case ev of
        Request req \<Rightarrow> snd (handle_request e (srv_state srv) (srv_verifier srv) req w)
      | EvictionTurn \<Rightarrow> snd (eviction_tick e em w))"

fun serve_events :: "env \<Rightarrow> server \<Rightarrow> eviction_manager \<Rightarrow> service_event list \<Rightarrow> world \<Rightarrow> world" where
  "serve_events e srv em [] w = w"
| "serve_events e srv em (ev # evs) w = serve_events e srv em evs (serve_event e srv em ev w)"

text \<open>
  A request that refreshes objects in \<open>R\<close> only and stores or deletes under keys in \<open>W\<close> only.
\<close>

definition event_within ::
  "env \<Rightarrow> (string \<Rightarrow> string \<Rightarrow> bool) \<Rightarrow> (string \<Rightarrow> bool) \<Rightarrow> service_event \<Rightarrow> bool" where
  "event_within e R W ev =
     (case ev of
        EvictionTurn \<Rightarrow> True
      | Request req \<Rightarrow>
          (case path_params e (in_path req) of
             Some (Inr (b, k)) \<Rightarrow> if in_method req \<in> {''PUT'', ''DELETE''} then W (object_key b k) else R b k
           | _ \<Rightarrow> True))"

section \<open>Invariants of the combinators\<close>

lemma keeps_s3_bind [keeps_intros]: "keeps P m \<Longrightarrow> (\<And>x. keeps P (f x)) \<Longrightarrow> keeps P (s3_bind m f)"
  unfolding s3_bind_def by (intro keeps_intros)

lemma keeps_or_error [keeps_intros]: "keeps P m \<Longrightarrow> keeps P (or_error f m)"
  unfolding or_error_def by (intro keeps_intros)

lemma keeps_into_response [keeps_intros]: "keeps P m \<Longrightarrow> keeps P (into_response e m)"
  unfolding into_response_def by (intro keeps_intros)

lemma keeps_join [keeps_intros]: "keeps P m \<Longrightarrow> keeps P (io_join m)"
  by (rule keepsI) (auto simp: io_join_def dest: keepsD split: prod.splits sum.splits fail.splits)

lemma drain_chunks_keeps:
  assumes "drain_chunks e st k cs ws w = Some y"
  shows "(\<forall>i d. keeps P (write_chunk e st k i d)) \<longrightarrow> P w \<longrightarrow> P (snd y)"
proof (rule drain_chunks.raw_induct [OF _ assms], goal_cases)
  case (1 drain e st k cs ws w y)
  show ?case
  proof (intro impI)
    assume k: "\<forall>i d. keeps P (write_chunk e st k i d)" and p: "P w"
    obtain r1 w1 where wr: "write_chunk e st k (ws_idx ws) (take (unat cs) (ws_buffer ws)) w = (r1, w1)"
      by (cases "write_chunk e st k (ws_idx ws) (take (unat cs) (ws_buffer ws)) w")
    then have "P w1" using k p by (blast dest: keepsD)
    with 1 k p wr show "P (snd y)" by (auto split: if_splits sum.splits)
  qed
qed

lemma keeps_drain_chunks:
  assumes "\<And>i d. keeps P (write_chunk e st k i d)"
  shows "keeps P (diverging (drain_chunks e st k cs ws))"
proof
  fix w r w' assume "P w" and "diverging (drain_chunks e st k cs ws) w = (r, w')"
  with drain_chunks_keeps [of e st k cs ws w _ P] assms show "P w'"
    by (auto simp: diverging_def split: option.splits)
qed

lemma keeps_pump_body:
  assumes "\<And>w n. P w \<Longrightarrow> P (w\<lparr>ticks := n\<rparr>)" and "\<And>i d. keeps P (write_chunk e st k i d)"
  shows "keeps P (pump_body e st k cs ps ws)"
proof -
  have send: "keeps P (pipe_send e)" by (rule keepsI) (auto simp: pipe_send_def intro: assms(1))
  show ?thesis
  proof (induction ps arbitrary: ws)
    case (Cons p ps)
    then show ?case
      by (cases p) (simp_all only: pump_body.simps, (intro keeps_intros send keeps_drain_chunks assms(2) | assumption)+)
  qed (simp only: pump_body.simps keeps_return)
qed

section \<open>What the calls below the handlers may do\<close>

text \<open>
  A property of the world that survives requests upstream, the removal of chunks and files, the
  update of access times, a refresh of the objects in \<open>R\<close> and every change of what is stored
  under the keys in \<open>W\<close>.
\<close>

locale service_invariant =
  fixes P :: "world \<Rightarrow> bool" and e :: env and co :: coordinator
    and R :: "string \<Rightarrow> string \<Rightarrow> bool" and W :: "string \<Rightarrow> bool"
  assumes frame: "P w \<Longrightarrow> P (w\<lparr>sent := s, ticks := n\<rparr>)"
    and drop_entry: "keeps P (delete_chunk e k i)"
    and drop_file: "P w \<Longrightarrow> P (w\<lparr>files := (files w)(p := None)\<rparr>)"
    and touches: "keeps P (touch_chunk e k i)"
    and refreshes: "R bucket key \<Longrightarrow> keeps P (get_object_metadata e co bucket key)"
    and puts_chunk: "W k \<Longrightarrow> keeps P (put_chunk e k i c)"
    and puts_object: "W k \<Longrightarrow> keeps P (put_object e k m)"
    and drops_object: "W k \<Longrightarrow> keeps P (delete_object e k)"
    and writes_file: "W k \<Longrightarrow> P w \<Longrightarrow> p \<in> {chunk_path e (co_storage co) k i, temp_of e (co_storage co) k i} \<Longrightarrow>
      P (w\<lparr>files := (files w)(p := x)\<rparr>)"
begin

lemma frame_ticks: "P w \<Longrightarrow> P (w\<lparr>ticks := n\<rparr>)"
  using frame [where w = w and s = "sent w" and n = n] by simp

lemmas outside = keeps_attempt [of P, OF frame_ticks] keeps_requests [of P, OF frame] keeps_is_hot [of P, OF frame_ticks]
  keeps_path_exists [of P, OF frame_ticks] keeps_read_chunk_range [of P, OF frame_ticks]

lemma reads: "keeps P (get_object e k)" "keeps P (get_chunk e k i)" "keeps P (list_all_chunks e)"
proof -
  show "keeps P (get_object e k)" unfolding get_object_def by (intro keeps_intros outside)
  show "keeps P (get_chunk e k i)" unfolding get_chunk_def by (intro keeps_intros outside)
  show "keeps P (list_all_chunks e)" unfolding list_all_chunks_def by (intro keeps_intros outside)
qed

lemma remove_file: "keeps P (fs_remove_file e p)"
proof -
  have "keeps P (io_modify (\<lambda>w. w\<lparr>files := (files w)(p := None)\<rparr>))" by (rule keepsI) (auto intro: drop_file)
  then show ?thesis unfolding fs_remove_file_def by (intro keeps_intros outside)
qed

lemma deletes_file: "keeps P (delete_chunk_file e st k i)"
  unfolding delete_chunk_file_def Let_def by (intro keeps_intros outside remove_file)

lemma parent: "keeps P (ensure_parent_dir e p)"
  unfolding ensure_parent_dir_def by (intro keeps_intros outside)

subsection \<open>Changes of the objects that satisfy \<open>W\<close>\<close>

lemma creates:
  assumes "W k" and "p \<in> {chunk_path e (co_storage co) k i, temp_of e (co_storage co) k i}"
  shows "keeps P (fs_create e p)" "keeps P (fs_write_all e p d)"
proof -
  have "keeps P (io_modify (\<lambda>w. w\<lparr>files := (files w)(p \<mapsto> [])\<rparr>))" by (rule keepsI) (auto intro: writes_file [OF assms(1) _ assms(2)])
  then show "keeps P (fs_create e p)" unfolding fs_create_def by (intro keeps_intros outside)
  have "P (w\<lparr>files := (files w)(p := x), ticks := n\<rparr>)" if "P w" for w x n
    using frame_ticks [OF writes_file [OF assms(1) that assms(2), of x], of n] by simp
  then show "keeps P (fs_write_all e p d)"
    by (intro keepsI) (auto simp: fs_write_all_def split: option.splits)
qed

lemma renames: "W k \<Longrightarrow> keeps P (fs_rename e (temp_of e (co_storage co) k i) (chunk_path e (co_storage co) k i))"
proof -
  let ?p = "temp_of e (co_storage co) k i" and ?q = "chunk_path e (co_storage co) k i"
  assume k: "W k"
  have "keeps P (io_modify (\<lambda>w. w\<lparr>files := (files w)(?p := None, ?q \<mapsto> d)\<rparr>))" for d
  proof
    fix w r w' assume "P w" and run: "io_modify (\<lambda>w. w\<lparr>files := (files w)(?p := None, ?q \<mapsto> d)\<rparr>) w = (r, w')"
    then have "P (w\<lparr>files := (files w)(?p := None)\<rparr>)" by (intro drop_file)
    from writes_file [OF k this, of ?q i "Some d"] run show "P w'" by auto
  qed
  then show ?thesis unfolding fs_rename_def by (intro keeps_intros outside)
qed

lemma writes: "W k \<Longrightarrow> keeps P (write_chunk e (co_storage co) k i d)"
  unfolding write_chunk_def Let_def by (intro keeps_intros outside parent creates renames) auto

lemma drops: "W (object_key bucket key) \<Longrightarrow> keeps P (drop_cache_for_object e co bucket key)"
  unfolding drop_cache_for_object_def Let_def
  by (intro keeps_intros reads deletes_file drop_entry drops_object keeps_num_chunks)

lemma copies: "W k' \<Longrightarrow> keeps P (copy_chunk e co k k' i)"
  unfolding copy_chunk_def fs_copy_def fs_open_def Let_def
  by (intro keeps_intros reads outside parent creates puts_chunk) auto

lemma copies_object: "W (object_key db dk) \<Longrightarrow> keeps P (copy_cache_object e co sb sk db dk)"
  unfolding copy_cache_object_def Let_def
  by (intro keeps_intros reads puts_object copies keeps_num_chunks)

lemma uploads: "W (object_key bucket key) \<Longrightarrow> keeps P (write_and_cache_object e co bucket key ps len ctype)"
  unfolding write_and_cache_object_def write_last_def Let_def
  by (intro keeps_intros drops keeps_pump_body frame_ticks writes outside puts_chunk puts_object deletes_file)

subsection \<open>Reads\<close>

lemma reads_chunk: "keeps P (read_chunk e co bucket key cr)"
  unfolding read_chunk_def Let_def by (intro keeps_intros reads touches outside)

lemma runs_reads: "keeps P (run_reads e co bucket key crs)"
proof (induction crs)
  case (Cons cr crs)
  then show ?case by (simp only: run_reads.simps) (intro keeps_intros reads_chunk)
qed (simp only: run_reads.simps keeps_return)

lemma streams: "keeps P (run_stream e co bucket key s)"
  unfolding run_stream_def by (cases s) (simp_all only: read_stream.case keeps_return runs_reads)

lemma ranges: "R bucket key \<Longrightarrow> keeps P (read_range e co bucket key start fin)"
  unfolding read_range_def Let_def by (intro keeps_intros refreshes)

subsection \<open>Requests and turns of the eviction\<close>

lemma gets: "R bucket key \<Longrightarrow> keeps P (serve_get e co hs bucket key)"
  unfolding serve_get_def get_object_handler_def get_headers_def Let_def
  by (intro keeps_intros refreshes ranges streams outside)

lemma heads: "R bucket key \<Longrightarrow> keeps P (head_object_handler e co bucket key)"
  unfolding head_object_handler_def Let_def by (intro keeps_intros refreshes outside)

lemma puts: "W (object_key bucket key) \<Longrightarrow> keeps P (put_object_handler e co hs bucket key body)"
  unfolding put_object_handler_def copy_object_handler_def store_object_handler_def Let_def
  by (intro keeps_intros copies_object uploads outside)

lemma deletes: "W (object_key bucket key) \<Longrightarrow> keeps P (delete_object_handler e co bucket key)"
  unfolding delete_object_handler_def by (intro keeps_intros drops outside)

lemma falls_back: "keeps P (fallback_proxy_handler e co req)"
  unfolding fallback_proxy_handler_def by (intro keeps_intros outside)

lemma evicts: "keeps P (eviction_tick e em)"
proof -
  have loop: "keeps P (evict_loop e st need cands n)" for st need cands n
  proof (induction cands arbitrary: n)
    case (Cons c cands)
    then show ?case
      by (cases c) (simp only: evict_loop.simps Let_def, intro keeps_intros deletes_file drop_entry Cons.IH)
  qed (simp only: evict_loop.simps keeps_return)
  show ?thesis unfolding eviction_tick_def check_and_evict_def Let_def by (intro keeps_intros reads loop)
qed

lemma routes:
  assumes "cache app = co"
    and "\<And>b k. path_params e (in_path req) = Some (Inr (b, k)) \<Longrightarrow>
      (if in_method req \<in> {''PUT'', ''DELETE''} then W (object_key b k) else R b k)"
  shows "keeps P (handle_request e app v req)"
proof -
  have "keeps P (object_route e co req b k)" if "path_params e (in_path req) = Some (Inr (b, k))" "in_method req \<in> object_methods" for b k
    unfolding object_route_def using that assms(2)
    by (intro keeps_intros gets heads puts deletes) (auto simp: object_methods_def)
  then have "keeps P (router e app req)"
    unfolding router_def assms(1) by (intro keeps_intros falls_back) auto
  then show ?thesis unfolding handle_request_def s3_auth_middleware_def by (intro keeps_intros)
qed

lemma serves:
  assumes "cache (srv_state srv) = co" and "\<forall>ev \<in> set evs. event_within e R W ev" and "P w"
  shows "P (serve_events e srv em evs w)"
  using assms(2,3)
proof (induction evs arbitrary: w)
  case (Cons ev evs)
  have "P (serve_event e srv em ev w)"
  proof (cases ev)
    case (Request req)
    have "keeps P (handle_request e (srv_state srv) (srv_verifier srv) req)"
      by (rule routes [OF assms(1)]) (use Cons.prems(1) Request in \<open>auto simp: event_within_def\<close>)
    with Cons.prems(2) Request show ?thesis by (simp add: serve_event_def keeps_def)
  next
    case EvictionTurn
    with Cons.prems(2) evicts [of em] show ?thesis by (simp add: serve_event_def keeps_def)
  qed
  with Cons show ?case by simp
qed simp

end

section \<open>The database stays well formed\<close>

lemma touch_keeps:
  assumes "\<And>w w'. P w \<Longrightarrow> only_touched e w w' \<Longrightarrow> P w'"
  shows "keeps (\<lambda>w. db_good e w \<and> P w) (touch_chunk e k i)"
  by (rule keepsI) (blast dest: touch_chunk_spec intro: assms)

interpretation database: service_invariant "db_good e" e co "\<lambda>_ _. True" "\<lambda>_. True" for e co
proof (unfold_locales, goal_cases)
  case (4 k i)
  then show ?case using touch_keeps [of "\<lambda>_. True"] by simp
qed (auto intro!: keepsI dest: delete_chunk_cell put_chunk_cell put_object_cell delete_object_cell refresh_world)

section \<open>Reads cache nothing\<close>

abbreviation only_known :: "env \<Rightarrow> (string \<times> u64) set \<Rightarrow> world \<Rightarrow> bool" where
  "only_known e known w \<equiv> db_good e w \<and> dom (chunk_of e w) \<subseteq> known"

lemma only_known_mono:
  "only_known e known w \<Longrightarrow> db_good e w' \<Longrightarrow> (\<And>x. chunk_of e w' x \<noteq> None \<Longrightarrow> chunk_of e w x \<noteq> None) \<Longrightarrow> only_known e known w'"
  by blast

lemma touched_dom: "only_touched e w w' \<Longrightarrow> dom (chunk_of e w') = dom (chunk_of e w)"
  unfolding only_touched_def dom_def by (metis (no_types, lifting) comp_apply map_option_is_None)

interpretation readers: service_invariant "only_known e known" e co "\<lambda>_ _. True" "\<lambda>_. False" for e known co
proof (unfold_locales, goal_cases)
  case (2 k i)
  show ?case
  proof (rule keepsI)
    fix w r w' assume kn: "only_known e known w" and d: "delete_chunk e k i w = (r, w')"
    from delete_chunk_cell [OF _ d] kn have g: "db_good e w'"
      and c: "\<And>x. chunk_of e w' x \<noteq> None \<Longrightarrow> chunk_of e w x \<noteq> None"
      by (auto split: if_splits)
    show "only_known e known w'" by (rule only_known_mono [OF kn g c])
  qed
next
  case (4 k i)
  show ?case by (rule touch_keeps) (simp add: touched_dom)
next
  case (5 b k)
  show ?case
  proof (rule keepsI)
    fix w r w' assume kn: "only_known e known w" and "get_object_metadata e co b k w = (r, w')"
    with refresh_world have rw: "db_good e w'" "only_refreshed e (co_storage co) (object_key b k) w w'" by blast+
    show "only_known e known w'"
      by (rule only_known_mono [OF kn rw(1)]) (use refreshed_chunk [OF rw(2)] in metis)
  qed
qed auto

section \<open>The cache never mixes versions of an object\<close>

definition origin_fixed :: "env \<Rightarrow> coordinator \<Rightarrow> string \<Rightarrow> string \<Rightarrow> bytes \<Rightarrow> string option \<Rightarrow> bool" where
  "origin_fixed e co bucket key content tag \<longleftrightarrow>
     faultless e \<and> hash_ok e \<and> chunk_size co \<noteq> 0 \<and> reports e (proxy co) bucket key content tag"

text \<open>What takes chunks away, or changes other objects, keeps the versions right.\<close>

lemma version_ok_mono:
  assumes "version_ok e co k content tag w" and "object_of e w' k = object_of e w k"
    and "\<And>i. chunk_of e w' (k, i) = chunk_of e w (k, i) \<or> chunk_of e w' (k, i) = None"
    and "\<And>i. file_of e (co_storage co) k w' i = file_of e (co_storage co) k w i \<or> file_of e (co_storage co) k w' i = None"
  shows "version_ok e co k content tag w'"
proof -
  have c: "chunk_of e w' (k, i) = Some c \<Longrightarrow> chunk_of e w (k, i) = Some c" for i c using assms(3) [of i] by auto
  have f: "file_of e (co_storage co) k w' i = Some d \<Longrightarrow> file_of e (co_storage co) k w i = Some d" for i d
    using assms(4) [of i] by auto
  have "coherent e co k content w \<Longrightarrow> coherent e co k content w'"
    unfolding coherent_def using c f by blast
  with assms(1) c show ?thesis unfolding version_ok_def assms(2) by blast
qed

lemma version_ok_touched:
  assumes "only_touched e w w'" and "version_ok e co k content tag w"
  shows "version_ok e co k content tag w'"
proof -
  have ob: "object_of e w' = object_of e w" using assms(1) by (simp add: only_touched_def object_of_def fun_eq_iff)
  have "chunk_of e w' x = None \<longleftrightarrow> chunk_of e w x = None" for x
    using assms(1) by (metis comp_apply map_option_is_None only_touched_def)
  then have "chunk_of e w' (k, i) = Some c \<Longrightarrow> \<exists>c'. chunk_of e w (k, i) = Some c'" for i c by (metis not_None_eq)
  with assms(2) coherent_touched [OF assms(1)] ob show ?thesis unfolding version_ok_def by metis
qed

lemma refresh_fails:
  assumes "faultless e" and "hash_ok e" and "db_good e w" and "chunk_size co \<noteq> 0"
    and "get_object_metadata e co bucket key w = (Inl f, w')"
  shows "same_state w w'"
proof (cases "head_object e (proxy co) bucket key w")
  case (Pair r w1)
  show ?thesis
  proof (cases r)
    case (Inl f')
    with Pair assms(5) requests_same_state(1) [OF Pair] show ?thesis
      by (simp add: get_object_metadata_def Let_def io_bind_apply)
  next
    case (Inr m)
    with refresh_returns [OF assms(1-4)] Pair assms(5) show ?thesis by force
  qed
qed

lemma refresh_version:
  assumes "origin_fixed e co bucket key content tag" and "db_good e w"
    and "version_ok e co (object_key bucket key) content tag w"
    and "b = bucket \<and> k = key \<or> hash_hex e (object_key b k) \<noteq> hash_hex e (object_key bucket key)"
    and "get_object_metadata e co b k w = (r, w')"
  shows "version_ok e co (object_key bucket key) content tag w'"
proof (cases "b = bucket \<and> k = key")
  case True
  note o = assms(1) [unfolded origin_fixed_def]
  show ?thesis
  proof (cases r)
    case (Inl f)
    with True assms(5) o have "same_state w w'" by (intro refresh_fails [OF _ _ assms(2)]) auto
    from version_ok_touched [OF same_state_touched [OF this] assms(3)] show ?thesis .
  next
    case (Inr meta)
    with True assms o show ?thesis using refresh_keeps_version [of e w co bucket key content tag meta w'] by simp
  qed
next
  case False
  with assms(4) have h: "hash_hex e (object_key b k) \<noteq> hash_hex e (object_key bucket key)" by blast
  then have ne: "object_key bucket key \<noteq> object_key b k" by metis
  from assms(1) have ok: "hash_ok e" by (simp add: origin_fixed_def)
  from refresh_world [OF assms(2,5)] have rf: "only_refreshed e (co_storage co) (object_key b k) w w'" by blast
  show ?thesis
  proof (rule version_ok_mono [OF assms(3)])
    show "object_of e w' (object_key bucket key) = object_of e w (object_key bucket key)"
      using rf ne by (simp add: only_refreshed_def)
    show "chunk_of e w' (object_key bucket key, i) = chunk_of e w (object_key bucket key, i) \<or>
      chunk_of e w' (object_key bucket key, i) = None" for i
      by (rule refreshed_chunk [OF rf])
    show "file_of e (co_storage co) (object_key bucket key) w' i = file_of e (co_storage co) (object_key bucket key) w i \<or>
      file_of e (co_storage co) (object_key bucket key) w' i = None" for i
      using rf by (auto simp: only_refreshed_def file_of_def)
  qed
qed

lemma other_file:
  assumes "hash_ok e" and "hash_hex e k' \<noteq> hash_hex e k" and "p \<in> {chunk_path e st k' i, temp_of e st k' i}"
  shows "file_of e st k (w\<lparr>files := (files w)(p := x)\<rparr>) = file_of e st k w"
proof -
  have "chunk_path e st k j \<noteq> p" for j
    using assms chunk_path_inject [OF assms(1), of st k j k' i] temp_not_chunk [OF assms(1), of st k' i k j] by auto
  then show ?thesis by (auto simp: file_of_def fun_eq_iff)
qed

abbreviation current_cache :: "env \<Rightarrow> coordinator \<Rightarrow> string \<Rightarrow> string \<Rightarrow> bytes \<Rightarrow> string option \<Rightarrow> world \<Rightarrow> bool" where
  "current_cache e co bucket key content tag w \<equiv>
     db_good e w \<and> origin_fixed e co bucket key content tag \<and> version_ok e co (object_key bucket key) content tag w"

text \<open>A step that changes the tables and files of the object only by removing chunks.\<close>

lemma current_cache_step:
  assumes "current_cache e co bucket key content tag w" and "db_good e w'"
    and "object_of e w' (object_key bucket key) = object_of e w (object_key bucket key)"
    and "\<And>i. chunk_of e w' (object_key bucket key, i) \<in> {chunk_of e w (object_key bucket key, i), None}"
    and "\<And>i. file_of e (co_storage co) (object_key bucket key) w' i \<in> {file_of e (co_storage co) (object_key bucket key) w i, None}"
  shows "current_cache e co bucket key content tag w'"
  using assms version_ok_mono [of e co "object_key bucket key" content tag w w'] by simp

lemma current_cache_keeps:
  assumes "\<And>w r w'. db_good e w \<Longrightarrow> m w = (r, w') \<Longrightarrow> db_good e w' \<and> files w' = files w \<and>
    object_of e w' (object_key bucket key) = object_of e w (object_key bucket key) \<and>
    (\<forall>i. chunk_of e w' (object_key bucket key, i) \<in> {chunk_of e w (object_key bucket key, i), None})"
  shows "keeps (current_cache e co bucket key content tag) m"
proof (rule keepsI)
  fix w r w' assume c: "current_cache e co bucket key content tag w" and "m w = (r, w')"
  with assms have s: "db_good e w' \<and> files w' = files w \<and>
    object_of e w' (object_key bucket key) = object_of e w (object_key bucket key) \<and>
    (\<forall>i. chunk_of e w' (object_key bucket key, i) \<in> {chunk_of e w (object_key bucket key, i), None})" by blast
  show "current_cache e co bucket key content tag w'"
    by (rule current_cache_step [OF c]) (use s in \<open>simp_all add: file_of_def\<close>)
qed

text \<open>What the calls of the database change, and what not.\<close>

lemma table_calls:
  assumes "db_good e w"
  shows "delete_chunk e k i w = (r, w') \<Longrightarrow> db_good e w' \<and> files w' = files w \<and> object_of e w' = object_of e w \<and>
      (\<forall>x. chunk_of e w' x \<in> {chunk_of e w x, None})"
    and "put_chunk e k i c w = (r, w') \<Longrightarrow> db_good e w' \<and> files w' = files w \<and> object_of e w' = object_of e w \<and>
      (\<forall>k' j. k' \<noteq> k \<longrightarrow> chunk_of e w' (k', j) = chunk_of e w (k', j))"
    and "put_object e k m w = (r, w') \<Longrightarrow> db_good e w' \<and> files w' = files w \<and> chunk_of e w' = chunk_of e w \<and>
      (\<forall>k'. k' \<noteq> k \<longrightarrow> object_of e w' k' = object_of e w k')"
    and "delete_object e k w = (r, w') \<Longrightarrow> db_good e w' \<and> files w' = files w \<and> chunk_of e w' = chunk_of e w \<and>
      (\<forall>k'. k' \<noteq> k \<longrightarrow> object_of e w' k' = object_of e w k')"
proof goal_cases
  case 1
  show ?case
    by (cases rule: delete_chunk_cases [of e k i w]) (use 1 assms db_good_codec [OF assms] in \<open>simp_all add: table_views\<close>)
next
  case 2
  show ?case
    by (cases rule: put_chunk_cases [of e k i c w]) (use 2 assms db_good_codec [OF assms] in \<open>simp_all add: table_views\<close>)
next
  case 3
  show ?case
    by (cases rule: put_object_cases [of e k m w]) (use 3 assms db_good_codec [OF assms] in \<open>simp_all add: table_views\<close>)
next
  case 4
  show ?case
    by (cases rule: delete_object_cases [of e k w]) (use 4 assms db_good_codec [OF assms] in \<open>simp_all add: table_views\<close>)
qed

interpretation versions: service_invariant "current_cache e co bucket key content tag" e co
  "\<lambda>b k. b = bucket \<and> k = key \<or> hash_hex e (object_key b k) \<noteq> hash_hex e (object_key bucket key)"
  "\<lambda>k. hash_hex e k \<noteq> hash_hex e (object_key bucket key)" for e co bucket key content tag
proof (unfold_locales, goal_cases)
  case (1 w s n)
  then show ?case by (rule current_cache_step) (use 1 in \<open>simp_all add: file_of_def\<close>)
next
  case (2 k i)
  show ?case by (rule current_cache_keeps) (use table_calls(1) in metis)
next
  case (3 w p)
  then show ?case by (rule current_cache_step) (use 3 in \<open>simp_all add: file_of_def\<close>)
next
  case (4 k i)
  show ?case by (rule touch_keeps) (auto intro: version_ok_touched)
next
  case (5 b k)
  show ?case by (rule keepsI) (use 5 refresh_world refresh_version in blast)
next
  case (6 k i c)
  then have "object_key bucket key \<noteq> k" by auto
  then show ?case by (intro current_cache_keeps) (simp add: table_calls(2))
next
  case (7 k m)
  then have "object_key bucket key \<noteq> k" by auto
  then show ?case by (intro current_cache_keeps) (simp add: table_calls(3))
next
  case (8 k)
  then have "object_key bucket key \<noteq> k" by auto
  then show ?case by (intro current_cache_keeps) (simp add: table_calls(4))
next
  case (9 k w p i x)
  from 9(2) have "hash_ok e" by (simp add: origin_fixed_def)
  note f = other_file [OF this 9(1) 9(3)]
  show ?case by (rule current_cache_step [OF 9(2)]) (use 9(2) f in simp_all)
qed

section \<open>Properties\<close>

text \<open>
  A request that leaves an object to upstream: on another object, told apart by its digest, or
  one that only reads the object.
\<close>

definition spares_object :: "env \<Rightarrow> string \<Rightarrow> string \<Rightarrow> service_event \<Rightarrow> bool" where
  "spares_object e bucket key =
     event_within e (\<lambda>b k. b = bucket \<and> k = key \<or> hash_hex e (object_key b k) \<noteq> hash_hex e (object_key bucket key))
       (\<lambda>k. hash_hex e k \<noteq> hash_hex e (object_key bucket key))"

lemma handle_get:
  assumes "handle_request e app v req w = (Inr resp, w')" and "in_method req = ''GET''"
    and "path_params e (in_path req) = Some (Inr (bucket, key))" and "rs_status resp \<in> {200, 206}"
  shows "serve_get e (cache app) (in_headers req) bucket key w = (Inr (Inr resp), w')"
proof -
  have err: "rs_status (error_response e err) \<notin> {200, 206}" for err
    by (auto simp: error_response_def to_xml_def error_parts_def split: s3_error.splits)
  have "object_route e (cache app) req bucket key w = (Inr resp, w')"
    using assms err by (auto simp: handle_request_def s3_auth_middleware_def router_def object_methods_def
        split: option.splits sum.splits)
  then have "into_response e (serve_get e (cache app) (in_headers req) bucket key) w = (Inr resp, w')"
    by (simp add: object_route_def assms(2))
  then obtain r where "serve_get e (cache app) (in_headers req) bucket key w = (Inr r, w')"
    and "resp = (case r of Inl err \<Rightarrow> error_response e err | Inr res \<Rightarrow> res)"
    by (auto simp: into_response_def elim!: io_bind_okE)
  then show ?thesis using err assms(4) by (cases r) auto
qed



text \<open>C11. With a verifier only verified requests have any effect: the requests it rejects are answered
  with 403 and the error document, and leave the cache, the log of the requests upstream and the
  count of outside calls as if they had never come.\<close>

theorem only_verified_served:
  "snd (serve_requests e app (Some v) reqs w) =
     snd (serve_requests e app None (filter (\<lambda>req. \<not> isl (verify e v req)) reqs) w) \<and>
   (\<forall>i < length reqs. isl (verify e v (reqs ! i)) \<longrightarrow>
      (\<exists>err. fst (serve_requests e app (Some v) reqs w) ! i = Inr (error_response e err) \<and>
         rs_status (error_response e err) = 403))"
proof (induction reqs arbitrary: w)
  case (Cons req reqs)
  have rejected: "handle_request e app (Some v) req w = (Inr (error_response e err), w)" "rs_status (error_response e err) = 403"
    if "verify e v req = Inl err" for err
  proof -
    from that have "err = InvalidAccessKeyId \<or> err = SignatureDoesNotMatch"
      by (auto simp: verify_def split: option.splits if_splits)
    then show "rs_status (error_response e err) = 403"
      by (auto simp: error_response_def to_xml_def error_parts_def)
    show "handle_request e app (Some v) req w = (Inr (error_response e err), w)"
      using that by (simp add: handle_request_def s3_auth_middleware_def)
  qed
  have accepted: "handle_request e app (Some v) req = handle_request e app None req" if "verify e v req = Inr c" for c
    using that by (simp add: handle_request_def s3_auth_middleware_def fun_eq_iff)
  obtain r w1 where run: "handle_request e app (Some v) req w = (r, w1)" by (cases "handle_request e app (Some v) req w")
  have fst: "fst (serve_requests e app (Some v) (req # reqs) w) = r # fst (serve_requests e app (Some v) reqs w1)"
    and snd: "snd (serve_requests e app (Some v) (req # reqs) w) = snd (serve_requests e app (Some v) reqs w1)"
    using run by (simp_all add: case_prod_unfold Let_def)
  have none: "snd (serve_requests e app None (filter (\<lambda>req. \<not> isl (verify e v req)) (req # reqs)) w) =
      snd (serve_requests e app None (filter (\<lambda>req. \<not> isl (verify e v req)) reqs) w1)"
    using run rejected(1) accepted by (cases "verify e v req") (simp_all add: case_prod_unfold Let_def)
  have ans: "\<exists>err. (r # fst (serve_requests e app (Some v) reqs w1)) ! i = Inr (error_response e err) \<and>
      rs_status (error_response e err) = 403"
    if "i < length (req # reqs)" "isl (verify e v ((req # reqs) ! i))" for i
  proof (cases i)
    case 0
    with that(2) obtain err where "verify e v req = Inl err" by (cases "verify e v req") auto
    with rejected [OF this] run 0 show ?thesis by auto
  next
    case (Suc j)
    with that Cons.IH [of w1] show ?thesis by simp
  qed
  show ?case
    unfolding fst snd none using Cons.IH [of w1] ans by (intro conjI allI impI) simp_all
qed simp

text \<open>The middleware without a verifier.\<close>

lemma unverified: "handle_request e app None req = router e app req"
  by (simp add: handle_request_def s3_auth_middleware_def)

lemma run_main_parts:
  assumes "run_main e read_to_string parse_toml parse_addr c w = (Inr (srv, em), w')" and "cli_config c = None"
  shows "srv_verifier srv = load_verifier e (cli_credentials c)" "chunk_size (cache (srv_state srv)) = cli_chunk_size c"
proof -
  from assms obtain cfg where cfg: "from_cli read_to_string parse_toml c = Inr cfg"
    and srv: "srv_verifier srv = load_verifier e (cfg_credentials cfg)"
      "chunk_size (cache (srv_state srv)) = cfg_chunk_size cfg"
    unfolding run_main_def Let_def start_server_def
    by (auto elim!: io_bind_okE io_seq_okE simp: coordinator_new_def)
  from cfg assms(2) have "cfg_credentials cfg = cli_credentials c \<and> cfg_chunk_size cfg = cli_chunk_size c"
    by (auto simp: from_cli_def split: option.splits)
  with srv show "srv_verifier srv = load_verifier e (cli_credentials c)"
    "chunk_size (cache (srv_state srv)) = cli_chunk_size c" by simp_all
qed

lemma set_split_char: "p \<in> set (split_char c s) \<Longrightarrow> set p \<subseteq> set s"
  by (induction s arbitrary: p) (fastforce split: if_splits list.splits)+

lemma new_from_str_no_colon:
  assumes "CHR '':'' \<notin> set s"
  shows "new_from_str s = None"
proof -
  have parts: "\<forall>p \<in> set (split_char (CHR '';'') s). CHR '':'' \<notin> set p"
    using assms set_split_char by blast
  have "foldl add_credential [] ps = []" if "\<forall>p \<in> set ps. CHR '':'' \<notin> set p" for ps
    using that by (induction ps) (simp_all add: add_credential_def splitn2_no_sep)
  with parts show ?thesis by (simp add: new_from_str_def)
qed

text \<open>C33. Credentials that do not parse disable the verification: when the program is started with
  credentials that contain no colon, and the environment names none, it serves every request as
  if no verification had been asked for.\<close>

theorem malformed_credentials_serve_unverified:
  assumes "cli_config c = None" and "cli_credentials c = Some credentials" and "CHR '':'' \<notin> set credentials"
    and "env_var e ''S3C_CREDENTIALS'' = None" and "env_var e ''S3C_ACCESS_KEY'' = None"
    and "run_main e read_to_string parse_toml parse_addr c w = (Inr (srv, em), w')"
  shows "handle_request e (srv_state srv) (srv_verifier srv) req = router e (srv_state srv) req"
proof -
  have "load_verifier e (Some credentials) = None"
    using assms(4,5) by (simp add: load_verifier_def new_from_str_no_colon [OF assms(3)] new_from_env_def)
  with run_main_parts(1) [OF assms(6,1)] assms(2) show ?thesis by (simp add: unverified)
qed

lemma run_main_ok:
  assumes "faultless e" and "from_cli read_to_string parse_toml c = Inr cfg" and "parse_addr (bind_addr cfg) = Inr a"
  shows "\<exists>w'. run_main e read_to_string parse_toml parse_addr c w =
    (Inr (\<lparr>srv_state = \<lparr>
             cache = coordinator_new (storage_new (cfg_cache_dir cfg))
               (proxy_client_new e (cfg_upstream_endpoint cfg) (cfg_upstream_region cfg) (backend_access_key cfg)
                 (backend_secret_key cfg) (backend_path_scheme cfg) (backend_v4_auth cfg)) (cfg_chunk_size cfg),
             app_upstream_endpoint = cfg_upstream_endpoint cfg, app_upstream_region = cfg_upstream_region cfg\<rparr>,
           srv_verifier = load_verifier e (cfg_credentials cfg)\<rparr>,
         eviction_manager_new (storage_new (cfg_cache_dir cfg)) (cfg_max_cache_size cfg)), w') \<and> same_state w w'"
proof -
  have at: "attempt e u = (Inr (), u\<lparr>ticks := Suc (ticks u)\<rparr>)" for u by (rule faultless_attempt [OF assms(1)])
  have pe: "path_exists e p u = (Inr (files u p \<noteq> None), u\<lparr>ticks := Suc (ticks u)\<rparr>)" for p u
    by (rule path_exists_calm [OF faultless_calm [OF assms(1)]])
  show ?thesis
    using assms(2,3)
    by (simp add: run_main_def Let_def io_bind_apply io_seq_apply create_dir_all_def
        metadata_db_new_def cleanup_temp_files_def start_server_def at pe)
qed

lemma default_target: "nine_tenths 53687091200 = 48318382080"
proof -
  have "floorlog 2 53687091200 = 36" "floorlog 2 435213295061266513631641600 = 89"
    by (simp_all add: compute_floorlog)
  then show ?thesis by (simp add: nine_tenths_def round_f64_def)
qed


text \<open>C26. The cache is filled by writes only, as the README promises: after any sequence of GET, HEAD and other
  requests that are neither a PUT nor a DELETE of an object, and turns of the eviction, whatever
  fails, every chunk the database lists was listed before; the bytes a read fetches upstream are
  not kept.\<close>

theorem reads_cache_nothing:
  assumes "db_good e w" and "\<forall>ev \<in> set evs. event_within e (\<lambda>_ _. True) (\<lambda>_. False) ev"
  shows "dom (chunk_of e (serve_events e srv em evs w)) \<subseteq> dom (chunk_of e w)"
proof -
  have "only_known e (dom (chunk_of e w)) w" using assms(1) by simp
  from readers.serves [OF refl assms(2) this] show ?thesis by blast
qed

section \<open>The properties on a concrete service\<close>

definition a_server :: server where
  "a_server = \<lparr>srv_state = \<lparr>cache = a_coordinator, app_upstream_endpoint = ''http://s3'', app_upstream_region = ''r''\<rparr>,
     srv_verifier = None\<rparr>"

definition a_manager :: eviction_manager where
  "a_manager = eviction_manager_new (co_storage a_coordinator) 10"

definition a_request :: client_request where
  "a_request = \<lparr>in_method = ''GET'', in_path = ''/b/k'', in_query = None, in_headers = a_range, in_body = []\<rparr>"

lemma a_request_path: "path_params an_env (in_path a_request) = Some (Inr (''b'', ''k''))"
  by (simp add: a_request_def sample_env_def splitn2_def)

lemma a_server_sel [simp]: "cache (srv_state a_server) = a_coordinator" "srv_verifier a_server = None"
  by (simp_all add: a_server_def)

text \<open>A read, and a turn of the eviction.\<close>

abbreviation some_events :: "service_event list" where
  "some_events \<equiv> [Request a_request, EvictionTurn]"

lemma some_events_within: "\<forall>ev \<in> set some_events. event_within an_env (\<lambda>_ _. True) (\<lambda>_. False) ev"
  by (simp add: event_within_def a_request_path) (simp add: a_request_def)

lemma some_events_spare: "\<forall>ev \<in> set some_events. spares_object an_env ''b'' ''k'' ev"
  by (simp add: spares_object_def event_within_def a_request_path) (simp add: a_request_def)

lemma after_events:
  "db_good an_env (serve_events an_env a_server a_manager some_events empty_world)"
  "chunk_of an_env (serve_events an_env a_server a_manager some_events empty_world) x = None"
proof -
  have "only_known an_env {} empty_world" by (auto simp: empty_db_good)
  from readers.serves [OF refl some_events_within this]
  show "db_good an_env (serve_events an_env a_server a_manager some_events empty_world)"
    "chunk_of an_env (serve_events an_env a_server a_manager some_events empty_world) x = None" by auto
qed

lemma handle_a_request:
  assumes "db_good an_env w" and "\<And>x. chunk_of an_env w x = None"
  shows "\<exists>h w'. handle_request an_env (srv_state a_server) (srv_verifier a_server) a_request w =
     (Inr \<lparr>rs_status = 206, rs_headers = h, rs_body = [Inr ''bc'', Inr ''de'']\<rparr>, w')"
proof -
  have cs: "chunk_size a_coordinator \<noteq> 0" by simp
  from sample_head_k obtain u where "head_object an_env (proxy a_coordinator) ''b'' ''k'' w = (Inr the_meta, u)" ..
  from refresh_returns [OF sample_faultless sample_hash_ok assms(1) cs this] obtain w1
    where g: "get_object_metadata an_env a_coordinator ''b'' ''k'' w = (Inr the_meta, w1)" ..
  from refresh_world [OF assms(1) g] have g1: "db_good an_env w1"
    and rf: "only_refreshed an_env (co_storage a_coordinator) (object_key ''b'' ''k'') w w1" by blast+
  have "chunk_of an_env w1 (object_key ''b'' ''k'', i) = None" for i
    using refreshed_chunk [OF rf, of "(object_key ''b'' ''k'', i)"] assms(2) by metis
  from cold_serve_get [OF g g1 this] obtain h w' where
    "serve_get an_env a_coordinator a_range ''b'' ''k'' w =
      (Inr (Inr \<lparr>rs_status = 206, rs_headers = h, rs_body = [Inr ''bc'', Inr ''de'']\<rparr>), w')" by blast
  then show ?thesis
    by (simp add: unverified router_def a_request_path object_route_def into_response_def io_bind_apply object_methods_def)
      (simp add: a_request_def io_bind_apply)
qed


theorem reads_cache_nothing_witness:
  "dom (chunk_of an_env (serve_events an_env a_server a_manager some_events full_cache)) \<subseteq> dom (chunk_of an_env full_cache)"
  by (rule reads_cache_nothing [OF full_cache_good some_events_within])

text \<open>A start, and what follows it.\<close>

abbreviation a_cli :: cli where
  "a_cli \<equiv> default_cli\<lparr>cli_upstream_endpoint := Some ''http://s3'', cli_credentials := Some ''token''\<rparr>"

lemma a_start:
  "\<exists>srv em w'. run_main an_env Inl (\<lambda>_. Inl []) Inr a_cli empty_world = (Inr (srv, em), w')"
proof -
  obtain cfg where "from_cli Inl (\<lambda>_. Inl []) a_cli = Inr cfg" by (simp add: from_cli_def default_cli_def)
  from run_main_ok [where e = an_env and parse_addr = Inr and w = empty_world, OF sample_faultless this refl] show ?thesis by blast
qed



theorem malformed_credentials_serve_unverified_witness:
  "\<exists>srv em w'. run_main an_env Inl (\<lambda>_. Inl []) Inr a_cli empty_world = (Inr (srv, em), w') \<and>
     handle_request an_env (srv_state srv) (srv_verifier srv) a_request = router an_env (srv_state srv) a_request"
proof -
  obtain srv em w' where r: "run_main an_env Inl (\<lambda>_. Inl []) Inr a_cli empty_world = (Inr (srv, em), w')"
    using a_start by blast
  have "cli_config a_cli = None" "cli_credentials a_cli = Some ''token''" "CHR '':'' \<notin> set ''token''"
    "env_var an_env ''S3C_CREDENTIALS'' = None" "env_var an_env ''S3C_ACCESS_KEY'' = None"
    by (simp_all add: default_cli_def sample_env_def)
  from malformed_credentials_serve_unverified [OF this r, of a_request] r show ?thesis by blast
qed

theorem only_verified_served_witness:
  "rs_status (projr (fst (serve_requests an_env (srv_state a_server) (Some [(''ak'', ''sk'')]) [a_request] empty_world) ! 0)) = 403 \<and>
   snd (serve_requests an_env (srv_state a_server) (Some [(''ak'', ''sk'')]) [a_request] empty_world) = empty_world"
proof -
  have "verify an_env [(''ak'', ''sk'')] a_request = Inl InvalidAccessKeyId"
    by (simp add: verify_def sig_params_in_def extract_from_headers_def extract_from_query_def query_map_def
        a_request_def header_str_def hm_get_def) (simp add: sample_env_def)
  with only_verified_served [of an_env "srv_state a_server" "[(''ak'', ''sk'')]" "[a_request]" empty_world]
  show ?thesis by (auto simp del: serve_requests.simps(2))
qed

end
