(* ===== verification/Spec2Isabelle.thy ===== *)
theory Spec2Isabelle
  imports Single_Flight Service
begin

text \<open>
  A model of s3xc, a caching proxy in front of an S3 service, and the theorems that make it
  correct.  A client sends S3 requests; the server verifies their AWS signature, if credentials
  are configured, and routes a request on \<open>/bucket/key\<close> to a handler and every other one to a
  proxy that forwards it.  The handlers call the cache coordinator, which keeps the chunks of
  objects in files and their metadata in a redb database, asks the upstream service for what it
  has not, and writes uploads through.  A background task evicts the chunks used least recently.

  \<^bold>\<open>The parts\<close>, with the files under \<open>src/src/\<close> they model, in the order in which they build on
  each other.

    \<^item> \<open>S3xc_Prelude\<close>, \<open>Rust_Str\<close>: the combinators of fallible, stateful code (\<open>io\<close>: a value, an
      error, a panic, or no return, and the new world), the collections \<open>keeps_intros\<close> and
      \<open>errors_intros\<close> of the rules that reduce a property of a computation to its parts, and the
      string operations of the Rust library the source uses.

    \<^item> \<open>World\<close>: the state of the program (the two tables, the files, the log of the requests sent
      upstream, the number of outside calls made so far) and \<open>env\<close>, what it depends on: which
      outside call fails and how, the clock, the upstream service as a function of the call and
      the request, and the third-party crates (serde_json, url, http, sha2, hmac, hex, chrono,
      the path matching of axum).  Nothing is assumed of these but the named hypotheses below.

    \<^item> \<open>Utils\<close> (\<open>utils.rs\<close>), \<open>Metadata\<close> (\<open>cache/metadata.rs\<close>), \<open>Storage\<close> (\<open>cache/storage.rs\<close>),
      \<open>Policy\<close> (\<open>cache/policy.rs\<close>), \<open>Proxy\<close> (\<open>proxy/mod.rs\<close>), \<open>SigV4\<close> (\<open>server/s3_api.rs\<close>),
      \<open>Config\<close> (\<open>config.rs\<close>): one function of the model per function of the source, with its
      name, except \<open>delete_chunk_file\<close> for \<open>Storage::delete_chunk\<close> and \<open>upstream_delete_object\<close>,
      \<open>upstream_copy_object\<close> for the methods of \<open>ProxyClient\<close>.

    \<^item> \<open>Coordinator\<close> (\<open>cache/mod.rs\<close>): metadata, reads, writes, drops and copies, one request at a
      time.  A read is a plan of chunk reads which run as the client takes the body; the write
      loop is \<open>pump_body\<close> and \<open>drain_chunks\<close>.  \<open>Single_Flight\<close>: \<open>ensure_chunk_cached\<close> of the same
      file, as a step relation of tasks that share the map of active downloads.

    \<^item> \<open>Handlers\<close> (\<open>server/handlers.rs\<close>), \<open>Server\<close> (\<open>server/mod.rs\<close>), \<open>Startup\<close> (\<open>main.rs\<close>).

    \<^item> \<open>Sample_Env\<close>: an environment that meets all hypotheses, with an S3 service of its own, on
      which the witnesses run.

  \<^bold>\<open>The interfaces.\<close>  \<open>Store_Interface\<close> states what the coordinator needs of a collection of cells
  (locale \<open>cell_store\<close>); both tables of the database and the files of an object provide it.
  \<open>Single_Flight\<close> has \<open>step_invariant\<close>, for what every step of a relation keeps, and \<open>Service\<close>
  has \<open>service_invariant\<close>, for what every request and every turn of the eviction keeps when the
  calls below them do; it is interpreted on the well-formed database, on the set of chunks known
  before a run of reads, and on the agreement of the cache with the version upstream has.

  \<^bold>\<open>The properties\<close>, by theory.

    \<^item> \<open>Read_Path\<close>, \<open>Cache_State\<close>, \<open>Reads\<close>: a read returns the requested bytes of the object whatever
      part of it is in the cache, never mixes versions, adds nothing to the cache, and is served
      without upstream when all chunks are there.

    \<^item> \<open>Writes\<close>: an upload leaves every chunk of the contents in the cache and the next read returns
      it; nothing is registered that upstream has not accepted; it returns for every chunk size
      but 0, and hangs for 0; what an upload that fails leaves behind.

    \<^item> \<open>Copies\<close>: what a copy leaves in the cache, and two cases in which it leaves the wrong bytes.

    \<^item> \<open>Policy\<close>: an eviction frees what it reports, down to the target, the least recently used
      chunks first, and removes nothing but complete chunks.

    \<^item> \<open>SigV4\<close>: a request signed by the client of the program is accepted by the verifier; credentials
      round-trip.  \<open>Utils\<close>: percent encoding round-trips.

    \<^item> \<open>Answers\<close>: ranges, and the answers to GET, HEAD, DELETE and forwarded requests; a GET through
      the cache refines a GET at the origin.

    \<^item> \<open>Single_Flight\<close>: at most one download per chunk, a task that returned has its chunk, a waiter
      waits for a download that is there, and what a dropped download does.

    \<^item> \<open>Service\<close>: the same for whole runs of the server, and for its start.

  \<^bold>\<open>Hypotheses\<close> about code outside the repository.  \<open>codec_ok\<close> (in \<open>db_good\<close>): a document that was
  written reads back as what it was.  \<open>hash_ok\<close>: a digest is 64 lower-case hexadecimal digits; that
  two keys have different digests is assumed by name where a property needs it.
  \<open>header_values_ok\<close>: a printable text is a header value and reads back as it is.
  \<open>reports\<close> and \<open>honours_ranges\<close>: upstream has the contents with the etag and answers HEAD and
  ranged GET with them.  \<open>faultless\<close>, \<open>disk_calm\<close>: no outside call of the program fails; where a
  property does not name one of them it holds for every pattern of failures.

  \<^bold>\<open>Bounds.\<close>  Offsets, lengths and indices are \<open>u64\<close>, with the wrap-around of a release build, and
  \<open>usize\<close> is \<open>u64\<close>; sizes of chunks are \<open>u32\<close>.  Properties of reads assume that the length of the
  contents and a chunk size together do not exceed \<open>2 ^ 64\<close>.  No operation runs on fuel: the
  loop that cuts chunks, \<open>drain_chunks\<close>, is a \<open>partial_function\<close>, and not returning is an outcome;
  the waiting loop of \<open>ensure_chunk_cached\<close> is part of its step relation; all others end.

  \<^bold>\<open>Not modelled.\<close>  Requests run one after the other, with the eviction between them, except in
  \<open>Single_Flight\<close>: two concurrent uploads of one object, or an eviction in the middle of a read,
  are not covered.  A spawned upload task and its channel are a list of pieces and the moment at
  which the receiver is gone.  Directories, logging, tracing, the runtime, the parsing of the
  command line by clap and of the TOML file are left out or parameters; so are deployment files
  and the shell script of the tests.  The credentials of a verified request, which the handlers
  pass on to functions that ignore them, are not passed on.
\<close>

end
